theory Spec2Isabelle
  imports Main "HOL-Library.Sublist"
begin

chapter \<open>The organize engine of zhili-file-organizer\<close>

text \<open>
  A shallow embedding of the engine of \<^verbatim>\<open>electron/main.ts\<close>: the classifier, the
  messy-name detector, the date token, the two-pass plan builder, duplicate detection,
  and the execute / undo handlers over an explicit file system and undo stack.
\<close>

section \<open>JavaScript strings\<close>

text \<open>
  A JavaScript string is a sequence of UTF-16 code units; \<^verbatim>\<open>length\<close>, \<^verbatim>\<open>includes\<close> and the
  regular expressions of the source (none has the \<^verbatim>\<open>u\<close> flag) all work on code units.
  A string is therefore a list of naturals. ASCII literals are written \<open>js ''...''\<close>, all
  other literals as their code units (the CJK labels of the source are in the Basic
  Multilingual Plane, one code unit each).
\<close>

type_synonym jstring = "nat list"

definition js :: "string \<Rightarrow> jstring" where
  "js s = map of_char s"

text \<open>
  \<^verbatim>\<open>String.prototype.toLowerCase\<close>: the string is read as code points (a high surrogate
  followed by a low surrogate is one code point, any other code unit is one by itself),
  every code point is replaced by its lower case of the Unicode Character Database
  (\<^verbatim>\<open>UnicodeData.txt\<close>, and the two language-independent entries of
  \<^verbatim>\<open>SpecialCasing.txt\<close>: U+0130, and U+03A3 in final position), and the result is written
  back as code units. The three tables are those of Unicode 14.0.

  \<open>lowerTable\<close>: an entry \<open>(lo, hi, step, lower)\<close> says that the code points \<open>lo\<close>,
  \<open>lo + step\<close>, ... up to \<open>hi\<close> have the lower case \<open>lower\<close>, \<open>lower + step\<close>, ...
\<close>

definition lowerTable :: "(nat \<times> nat \<times> nat \<times> nat) list" where
  "lowerTable =
     [
      (0x41, 0x5A, 1, 0x61), (0xC0, 0xD6, 1, 0xE0), (0xD8, 0xDE, 1, 0xF8),
      (0x100, 0x12E, 2, 0x101), (0x132, 0x136, 2, 0x133), (0x139, 0x147, 2, 0x13A),
      (0x14A, 0x176, 2, 0x14B), (0x178, 0x178, 1, 0xFF), (0x179, 0x17D, 2, 0x17A),
      (0x181, 0x181, 1, 0x253), (0x182, 0x184, 2, 0x183), (0x186, 0x186, 1, 0x254),
      (0x187, 0x187, 1, 0x188), (0x189, 0x18A, 1, 0x256), (0x18B, 0x18B, 1, 0x18C),
      (0x18E, 0x18E, 1, 0x1DD), (0x18F, 0x18F, 1, 0x259), (0x190, 0x190, 1, 0x25B),
      (0x191, 0x191, 1, 0x192), (0x193, 0x193, 1, 0x260), (0x194, 0x194, 1, 0x263),
      (0x196, 0x196, 1, 0x269), (0x197, 0x197, 1, 0x268), (0x198, 0x198, 1, 0x199),
      (0x19C, 0x19C, 1, 0x26F), (0x19D, 0x19D, 1, 0x272), (0x19F, 0x19F, 1, 0x275),
      (0x1A0, 0x1A4, 2, 0x1A1), (0x1A6, 0x1A6, 1, 0x280), (0x1A7, 0x1A7, 1, 0x1A8),
      (0x1A9, 0x1A9, 1, 0x283), (0x1AC, 0x1AC, 1, 0x1AD), (0x1AE, 0x1AE, 1, 0x288),
      (0x1AF, 0x1AF, 1, 0x1B0), (0x1B1, 0x1B2, 1, 0x28A), (0x1B3, 0x1B5, 2, 0x1B4),
      (0x1B7, 0x1B7, 1, 0x292), (0x1B8, 0x1B8, 1, 0x1B9), (0x1BC, 0x1BC, 1, 0x1BD),
      (0x1C4, 0x1C4, 1, 0x1C6), (0x1C5, 0x1C5, 1, 0x1C6), (0x1C7, 0x1C7, 1, 0x1C9),
      (0x1C8, 0x1C8, 1, 0x1C9), (0x1CA, 0x1CA, 1, 0x1CC), (0x1CB, 0x1DB, 2, 0x1CC),
      (0x1DE, 0x1EE, 2, 0x1DF), (0x1F1, 0x1F1, 1, 0x1F3), (0x1F2, 0x1F4, 2, 0x1F3),
      (0x1F6, 0x1F6, 1, 0x195), (0x1F7, 0x1F7, 1, 0x1BF), (0x1F8, 0x21E, 2, 0x1F9),
      (0x220, 0x220, 1, 0x19E), (0x222, 0x232, 2, 0x223), (0x23A, 0x23A, 1, 0x2C65),
      (0x23B, 0x23B, 1, 0x23C), (0x23D, 0x23D, 1, 0x19A), (0x23E, 0x23E, 1, 0x2C66),
      (0x241, 0x241, 1, 0x242), (0x243, 0x243, 1, 0x180), (0x244, 0x244, 1, 0x289),
      (0x245, 0x245, 1, 0x28C), (0x246, 0x24E, 2, 0x247), (0x370, 0x372, 2, 0x371),
      (0x376, 0x376, 1, 0x377), (0x37F, 0x37F, 1, 0x3F3), (0x386, 0x386, 1, 0x3AC),
      (0x388, 0x38A, 1, 0x3AD), (0x38C, 0x38C, 1, 0x3CC), (0x38E, 0x38F, 1, 0x3CD),
      (0x391, 0x3A1, 1, 0x3B1), (0x3A3, 0x3AB, 1, 0x3C3), (0x3CF, 0x3CF, 1, 0x3D7),
      (0x3D8, 0x3EE, 2, 0x3D9), (0x3F4, 0x3F4, 1, 0x3B8), (0x3F7, 0x3F7, 1, 0x3F8),
      (0x3F9, 0x3F9, 1, 0x3F2), (0x3FA, 0x3FA, 1, 0x3FB), (0x3FD, 0x3FF, 1, 0x37B),
      (0x400, 0x40F, 1, 0x450), (0x410, 0x42F, 1, 0x430), (0x460, 0x480, 2, 0x461),
      (0x48A, 0x4BE, 2, 0x48B), (0x4C0, 0x4C0, 1, 0x4CF), (0x4C1, 0x4CD, 2, 0x4C2),
      (0x4D0, 0x52E, 2, 0x4D1), (0x531, 0x556, 1, 0x561), (0x10A0, 0x10C5, 1, 0x2D00),
      (0x10C7, 0x10C7, 1, 0x2D27), (0x10CD, 0x10CD, 1, 0x2D2D), (0x13A0, 0x13EF, 1, 0xAB70),
      (0x13F0, 0x13F5, 1, 0x13F8), (0x1C90, 0x1CBA, 1, 0x10D0), (0x1CBD, 0x1CBF, 1, 0x10FD),
      (0x1E00, 0x1E94, 2, 0x1E01), (0x1E9E, 0x1E9E, 1, 0xDF), (0x1EA0, 0x1EFE, 2, 0x1EA1),
      (0x1F08, 0x1F0F, 1, 0x1F00), (0x1F18, 0x1F1D, 1, 0x1F10), (0x1F28, 0x1F2F, 1, 0x1F20),
      (0x1F38, 0x1F3F, 1, 0x1F30), (0x1F48, 0x1F4D, 1, 0x1F40), (0x1F59, 0x1F5F, 2, 0x1F51),
      (0x1F68, 0x1F6F, 1, 0x1F60), (0x1F88, 0x1F8F, 1, 0x1F80), (0x1F98, 0x1F9F, 1, 0x1F90),
      (0x1FA8, 0x1FAF, 1, 0x1FA0), (0x1FB8, 0x1FB9, 1, 0x1FB0), (0x1FBA, 0x1FBB, 1, 0x1F70),
      (0x1FBC, 0x1FBC, 1, 0x1FB3), (0x1FC8, 0x1FCB, 1, 0x1F72), (0x1FCC, 0x1FCC, 1, 0x1FC3),
      (0x1FD8, 0x1FD9, 1, 0x1FD0), (0x1FDA, 0x1FDB, 1, 0x1F76), (0x1FE8, 0x1FE9, 1, 0x1FE0),
      (0x1FEA, 0x1FEB, 1, 0x1F7A), (0x1FEC, 0x1FEC, 1, 0x1FE5), (0x1FF8, 0x1FF9, 1, 0x1F78),
      (0x1FFA, 0x1FFB, 1, 0x1F7C), (0x1FFC, 0x1FFC, 1, 0x1FF3), (0x2126, 0x2126, 1, 0x3C9),
      (0x212A, 0x212A, 1, 0x6B), (0x212B, 0x212B, 1, 0xE5), (0x2132, 0x2132, 1, 0x214E),
      (0x2160, 0x216F, 1, 0x2170), (0x2183, 0x2183, 1, 0x2184), (0x24B6, 0x24CF, 1, 0x24D0),
      (0x2C00, 0x2C2F, 1, 0x2C30), (0x2C60, 0x2C60, 1, 0x2C61), (0x2C62, 0x2C62, 1, 0x26B),
      (0x2C63, 0x2C63, 1, 0x1D7D), (0x2C64, 0x2C64, 1, 0x27D), (0x2C67, 0x2C6B, 2, 0x2C68),
      (0x2C6D, 0x2C6D, 1, 0x251), (0x2C6E, 0x2C6E, 1, 0x271), (0x2C6F, 0x2C6F, 1, 0x250),
      (0x2C70, 0x2C70, 1, 0x252), (0x2C72, 0x2C72, 1, 0x2C73), (0x2C75, 0x2C75, 1, 0x2C76),
      (0x2C7E, 0x2C7F, 1, 0x23F), (0x2C80, 0x2CE2, 2, 0x2C81), (0x2CEB, 0x2CED, 2, 0x2CEC),
      (0x2CF2, 0x2CF2, 1, 0x2CF3), (0xA640, 0xA66C, 2, 0xA641), (0xA680, 0xA69A, 2, 0xA681),
      (0xA722, 0xA72E, 2, 0xA723), (0xA732, 0xA76E, 2, 0xA733), (0xA779, 0xA77B, 2, 0xA77A),
      (0xA77D, 0xA77D, 1, 0x1D79), (0xA77E, 0xA786, 2, 0xA77F), (0xA78B, 0xA78B, 1, 0xA78C),
      (0xA78D, 0xA78D, 1, 0x265), (0xA790, 0xA792, 2, 0xA791), (0xA796, 0xA7A8, 2, 0xA797),
      (0xA7AA, 0xA7AA, 1, 0x266), (0xA7AB, 0xA7AB, 1, 0x25C), (0xA7AC, 0xA7AC, 1, 0x261),
      (0xA7AD, 0xA7AD, 1, 0x26C), (0xA7AE, 0xA7AE, 1, 0x26A), (0xA7B0, 0xA7B0, 1, 0x29E),
      (0xA7B1, 0xA7B1, 1, 0x287), (0xA7B2, 0xA7B2, 1, 0x29D), (0xA7B3, 0xA7B3, 1, 0xAB53),
      (0xA7B4, 0xA7C2, 2, 0xA7B5), (0xA7C4, 0xA7C4, 1, 0xA794), (0xA7C5, 0xA7C5, 1, 0x282),
      (0xA7C6, 0xA7C6, 1, 0x1D8E), (0xA7C7, 0xA7C9, 2, 0xA7C8), (0xA7D0, 0xA7D0, 1, 0xA7D1),
      (0xA7D6, 0xA7D8, 2, 0xA7D7), (0xA7F5, 0xA7F5, 1, 0xA7F6), (0xFF21, 0xFF3A, 1, 0xFF41),
      (0x10400, 0x10427, 1, 0x10428), (0x104B0, 0x104D3, 1, 0x104D8), (0x10570, 0x1057A, 1, 0x10597),
      (0x1057C, 0x1058A, 1, 0x105A3), (0x1058C, 0x10592, 1, 0x105B3), (0x10594, 0x10595, 1, 0x105BB),
      (0x10C80, 0x10CB2, 1, 0x10CC0), (0x118A0, 0x118BF, 1, 0x118C0), (0x16E40, 0x16E5F, 1, 0x16E60),
      (0x1E900, 0x1E921, 1, 0x1E922)
     ]"

text \<open>The code points with the property \<^verbatim>\<open>Case_Ignorable\<close>, as ranges.\<close>

definition caseIgnorableTable :: "(nat \<times> nat) list" where
  "caseIgnorableTable =
     [
      (0x27, 0x27), (0x2E, 0x2E), (0x3A, 0x3A), (0x5E, 0x5E), (0x60, 0x60),
      (0xA8, 0xA8), (0xAD, 0xAD), (0xAF, 0xAF), (0xB4, 0xB4), (0xB7, 0xB8),
      (0x2B0, 0x36F), (0x374, 0x375), (0x37A, 0x37A), (0x384, 0x385), (0x387, 0x387),
      (0x483, 0x489), (0x559, 0x559), (0x55F, 0x55F), (0x591, 0x5BD), (0x5BF, 0x5BF),
      (0x5C1, 0x5C2), (0x5C4, 0x5C5), (0x5C7, 0x5C7), (0x5F4, 0x5F4), (0x600, 0x605),
      (0x610, 0x61A), (0x61C, 0x61C), (0x640, 0x640), (0x64B, 0x65F), (0x670, 0x670),
      (0x6D6, 0x6DD), (0x6DF, 0x6E8), (0x6EA, 0x6ED), (0x70F, 0x70F), (0x711, 0x711),
      (0x730, 0x74A), (0x7A6, 0x7B0), (0x7EB, 0x7F5), (0x7FA, 0x7FA), (0x7FD, 0x7FD),
      (0x816, 0x82D), (0x859, 0x85B), (0x888, 0x888), (0x890, 0x891), (0x898, 0x89F),
      (0x8C9, 0x902), (0x93A, 0x93A), (0x93C, 0x93C), (0x941, 0x948), (0x94D, 0x94D),
      (0x951, 0x957), (0x962, 0x963), (0x971, 0x971), (0x981, 0x981), (0x9BC, 0x9BC),
      (0x9C1, 0x9C4), (0x9CD, 0x9CD), (0x9E2, 0x9E3), (0x9FE, 0x9FE), (0xA01, 0xA02),
      (0xA3C, 0xA3C), (0xA41, 0xA42), (0xA47, 0xA48), (0xA4B, 0xA4D), (0xA51, 0xA51),
      (0xA70, 0xA71), (0xA75, 0xA75), (0xA81, 0xA82), (0xABC, 0xABC), (0xAC1, 0xAC5),
      (0xAC7, 0xAC8), (0xACD, 0xACD), (0xAE2, 0xAE3), (0xAFA, 0xAFF), (0xB01, 0xB01),
      (0xB3C, 0xB3C), (0xB3F, 0xB3F), (0xB41, 0xB44), (0xB4D, 0xB4D), (0xB55, 0xB56),
      (0xB62, 0xB63), (0xB82, 0xB82), (0xBC0, 0xBC0), (0xBCD, 0xBCD), (0xC00, 0xC00),
      (0xC04, 0xC04), (0xC3C, 0xC3C), (0xC3E, 0xC40), (0xC46, 0xC48), (0xC4A, 0xC4D),
      (0xC55, 0xC56), (0xC62, 0xC63), (0xC81, 0xC81), (0xCBC, 0xCBC), (0xCBF, 0xCBF),
      (0xCC6, 0xCC6), (0xCCC, 0xCCD), (0xCE2, 0xCE3), (0xD00, 0xD01), (0xD3B, 0xD3C),
      (0xD41, 0xD44), (0xD4D, 0xD4D), (0xD62, 0xD63), (0xD81, 0xD81), (0xDCA, 0xDCA),
      (0xDD2, 0xDD4), (0xDD6, 0xDD6), (0xE31, 0xE31), (0xE34, 0xE3A), (0xE46, 0xE4E),
      (0xEB1, 0xEB1), (0xEB4, 0xEBC), (0xEC6, 0xEC6), (0xEC8, 0xECD), (0xF18, 0xF19),
      (0xF35, 0xF35), (0xF37, 0xF37), (0xF39, 0xF39), (0xF71, 0xF7E), (0xF80, 0xF84),
      (0xF86, 0xF87), (0xF8D, 0xF97), (0xF99, 0xFBC), (0xFC6, 0xFC6), (0x102D, 0x1030),
      (0x1032, 0x1037), (0x1039, 0x103A), (0x103D, 0x103E), (0x1058, 0x1059), (0x105E, 0x1060),
      (0x1071, 0x1074), (0x1082, 0x1082), (0x1085, 0x1086), (0x108D, 0x108D), (0x109D, 0x109D),
      (0x10FC, 0x10FC), (0x135D, 0x135F), (0x1712, 0x1714), (0x1732, 0x1733), (0x1752, 0x1753),
      (0x1772, 0x1773), (0x17B4, 0x17B5), (0x17B7, 0x17BD), (0x17C6, 0x17C6), (0x17C9, 0x17D3),
      (0x17D7, 0x17D7), (0x17DD, 0x17DD), (0x180B, 0x180F), (0x1843, 0x1843), (0x1885, 0x1886),
      (0x18A9, 0x18A9), (0x1920, 0x1922), (0x1927, 0x1928), (0x1932, 0x1932), (0x1939, 0x193B),
      (0x1A17, 0x1A18), (0x1A1B, 0x1A1B), (0x1A56, 0x1A56), (0x1A58, 0x1A5E), (0x1A60, 0x1A60),
      (0x1A62, 0x1A62), (0x1A65, 0x1A6C), (0x1A73, 0x1A7C), (0x1A7F, 0x1A7F), (0x1AA7, 0x1AA7),
      (0x1AB0, 0x1ACE), (0x1B00, 0x1B03), (0x1B34, 0x1B34), (0x1B36, 0x1B3A), (0x1B3C, 0x1B3C),
      (0x1B42, 0x1B42), (0x1B6B, 0x1B73), (0x1B80, 0x1B81), (0x1BA2, 0x1BA5), (0x1BA8, 0x1BA9),
      (0x1BAB, 0x1BAD), (0x1BE6, 0x1BE6), (0x1BE8, 0x1BE9), (0x1BED, 0x1BED), (0x1BEF, 0x1BF1),
      (0x1C2C, 0x1C33), (0x1C36, 0x1C37), (0x1C78, 0x1C7D), (0x1CD0, 0x1CD2), (0x1CD4, 0x1CE0),
      (0x1CE2, 0x1CE8), (0x1CED, 0x1CED), (0x1CF4, 0x1CF4), (0x1CF8, 0x1CF9), (0x1D2C, 0x1D6A),
      (0x1D78, 0x1D78), (0x1D9B, 0x1DFF), (0x1FBD, 0x1FBD), (0x1FBF, 0x1FC1), (0x1FCD, 0x1FCF),
      (0x1FDD, 0x1FDF), (0x1FED, 0x1FEF), (0x1FFD, 0x1FFE), (0x200B, 0x200F), (0x2018, 0x2019),
      (0x2024, 0x2024), (0x2027, 0x2027), (0x202A, 0x202E), (0x2060, 0x2064), (0x2066, 0x206F),
      (0x2071, 0x2071), (0x207F, 0x207F), (0x2090, 0x209C), (0x20D0, 0x20F0), (0x2C7C, 0x2C7D),
      (0x2CEF, 0x2CF1), (0x2D6F, 0x2D6F), (0x2D7F, 0x2D7F), (0x2DE0, 0x2DFF), (0x2E2F, 0x2E2F),
      (0x3005, 0x3005), (0x302A, 0x302D), (0x3031, 0x3035), (0x303B, 0x303B), (0x3099, 0x309E),
      (0x30FC, 0x30FE), (0xA015, 0xA015), (0xA4F8, 0xA4FD), (0xA60C, 0xA60C), (0xA66F, 0xA672),
      (0xA674, 0xA67D), (0xA67F, 0xA67F), (0xA69C, 0xA69F), (0xA6F0, 0xA6F1), (0xA700, 0xA721),
      (0xA770, 0xA770), (0xA788, 0xA78A), (0xA7F2, 0xA7F4), (0xA7F8, 0xA7F9), (0xA802, 0xA802),
      (0xA806, 0xA806), (0xA80B, 0xA80B), (0xA825, 0xA826), (0xA82C, 0xA82C), (0xA8C4, 0xA8C5),
      (0xA8E0, 0xA8F1), (0xA8FF, 0xA8FF), (0xA926, 0xA92D), (0xA947, 0xA951), (0xA980, 0xA982),
      (0xA9B3, 0xA9B3), (0xA9B6, 0xA9B9), (0xA9BC, 0xA9BD), (0xA9CF, 0xA9CF), (0xA9E5, 0xA9E6),
      (0xAA29, 0xAA2E), (0xAA31, 0xAA32), (0xAA35, 0xAA36), (0xAA43, 0xAA43), (0xAA4C, 0xAA4C),
      (0xAA70, 0xAA70), (0xAA7C, 0xAA7C), (0xAAB0, 0xAAB0), (0xAAB2, 0xAAB4), (0xAAB7, 0xAAB8),
      (0xAABE, 0xAABF), (0xAAC1, 0xAAC1), (0xAADD, 0xAADD), (0xAAEC, 0xAAED), (0xAAF3, 0xAAF4),
      (0xAAF6, 0xAAF6), (0xAB5B, 0xAB5F), (0xAB69, 0xAB6B), (0xABE5, 0xABE5), (0xABE8, 0xABE8),
      (0xABED, 0xABED), (0xFB1E, 0xFB1E), (0xFBB2, 0xFBC2), (0xFE00, 0xFE0F), (0xFE13, 0xFE13),
      (0xFE20, 0xFE2F), (0xFE52, 0xFE52), (0xFE55, 0xFE55), (0xFEFF, 0xFEFF), (0xFF07, 0xFF07),
      (0xFF0E, 0xFF0E), (0xFF1A, 0xFF1A), (0xFF3E, 0xFF3E), (0xFF40, 0xFF40), (0xFF70, 0xFF70),
      (0xFF9E, 0xFF9F), (0xFFE3, 0xFFE3), (0xFFF9, 0xFFFB), (0x101FD, 0x101FD), (0x102E0, 0x102E0),
      (0x10376, 0x1037A), (0x10780, 0x10785), (0x10787, 0x107B0), (0x107B2, 0x107BA), (0x10A01, 0x10A03),
      (0x10A05, 0x10A06), (0x10A0C, 0x10A0F), (0x10A38, 0x10A3A), (0x10A3F, 0x10A3F), (0x10AE5, 0x10AE6),
      (0x10D24, 0x10D27), (0x10EAB, 0x10EAC), (0x10F46, 0x10F50), (0x10F82, 0x10F85), (0x11001, 0x11001),
      (0x11038, 0x11046), (0x11070, 0x11070), (0x11073, 0x11074), (0x1107F, 0x11081), (0x110B3, 0x110B6),
      (0x110B9, 0x110BA), (0x110BD, 0x110BD), (0x110C2, 0x110C2), (0x110CD, 0x110CD), (0x11100, 0x11102),
      (0x11127, 0x1112B), (0x1112D, 0x11134), (0x11173, 0x11173), (0x11180, 0x11181), (0x111B6, 0x111BE),
      (0x111C9, 0x111CC), (0x111CF, 0x111CF), (0x1122F, 0x11231), (0x11234, 0x11234), (0x11236, 0x11237),
      (0x1123E, 0x1123E), (0x112DF, 0x112DF), (0x112E3, 0x112EA), (0x11300, 0x11301), (0x1133B, 0x1133C),
      (0x11340, 0x11340), (0x11366, 0x1136C), (0x11370, 0x11374), (0x11438, 0x1143F), (0x11442, 0x11444),
      (0x11446, 0x11446), (0x1145E, 0x1145E), (0x114B3, 0x114B8), (0x114BA, 0x114BA), (0x114BF, 0x114C0),
      (0x114C2, 0x114C3), (0x115B2, 0x115B5), (0x115BC, 0x115BD), (0x115BF, 0x115C0), (0x115DC, 0x115DD),
      (0x11633, 0x1163A), (0x1163D, 0x1163D), (0x1163F, 0x11640), (0x116AB, 0x116AB), (0x116AD, 0x116AD),
      (0x116B0, 0x116B5), (0x116B7, 0x116B7), (0x1171D, 0x1171F), (0x11722, 0x11725), (0x11727, 0x1172B),
      (0x1182F, 0x11837), (0x11839, 0x1183A), (0x1193B, 0x1193C), (0x1193E, 0x1193E), (0x11943, 0x11943),
      (0x119D4, 0x119D7), (0x119DA, 0x119DB), (0x119E0, 0x119E0), (0x11A01, 0x11A0A), (0x11A33, 0x11A38),
      (0x11A3B, 0x11A3E), (0x11A47, 0x11A47), (0x11A51, 0x11A56), (0x11A59, 0x11A5B), (0x11A8A, 0x11A96),
      (0x11A98, 0x11A99), (0x11C30, 0x11C36), (0x11C38, 0x11C3D), (0x11C3F, 0x11C3F), (0x11C92, 0x11CA7),
      (0x11CAA, 0x11CB0), (0x11CB2, 0x11CB3), (0x11CB5, 0x11CB6), (0x11D31, 0x11D36), (0x11D3A, 0x11D3A),
      (0x11D3C, 0x11D3D), (0x11D3F, 0x11D45), (0x11D47, 0x11D47), (0x11D90, 0x11D91), (0x11D95, 0x11D95),
      (0x11D97, 0x11D97), (0x11EF3, 0x11EF4), (0x13430, 0x13438), (0x16AF0, 0x16AF4), (0x16B30, 0x16B36),
      (0x16B40, 0x16B43), (0x16F4F, 0x16F4F), (0x16F8F, 0x16F9F), (0x16FE0, 0x16FE1), (0x16FE3, 0x16FE4),
      (0x1AFF0, 0x1AFF3), (0x1AFF5, 0x1AFFB), (0x1AFFD, 0x1AFFE), (0x1BC9D, 0x1BC9E), (0x1BCA0, 0x1BCA3),
      (0x1CF00, 0x1CF2D), (0x1CF30, 0x1CF46), (0x1D167, 0x1D169), (0x1D173, 0x1D182), (0x1D185, 0x1D18B),
      (0x1D1AA, 0x1D1AD), (0x1D242, 0x1D244), (0x1DA00, 0x1DA36), (0x1DA3B, 0x1DA6C), (0x1DA75, 0x1DA75),
      (0x1DA84, 0x1DA84), (0x1DA9B, 0x1DA9F), (0x1DAA1, 0x1DAAF), (0x1E000, 0x1E006), (0x1E008, 0x1E018),
      (0x1E01B, 0x1E021), (0x1E023, 0x1E024), (0x1E026, 0x1E02A), (0x1E130, 0x1E13D), (0x1E2AE, 0x1E2AE),
      (0x1E2EC, 0x1E2EF), (0x1E8D0, 0x1E8D6), (0x1E944, 0x1E94B), (0x1F3FB, 0x1F3FF), (0xE0001, 0xE0001),
      (0xE0020, 0xE007F), (0xE0100, 0xE01EF)
     ]"

text \<open>The code points with the property \<^verbatim>\<open>Cased\<close>, as ranges.\<close>

definition casedTable :: "(nat \<times> nat) list" where
  "casedTable =
     [
      (0x41, 0x5A), (0x61, 0x7A), (0xAA, 0xAA), (0xB5, 0xB5), (0xBA, 0xBA),
      (0xC0, 0xD6), (0xD8, 0xF6), (0xF8, 0x1BA), (0x1BC, 0x1BF), (0x1C4, 0x293),
      (0x295, 0x2B8), (0x2C0, 0x2C1), (0x2E0, 0x2E4), (0x345, 0x345), (0x370, 0x373),
      (0x376, 0x377), (0x37A, 0x37D), (0x37F, 0x37F), (0x386, 0x386), (0x388, 0x38A),
      (0x38C, 0x38C), (0x38E, 0x3A1), (0x3A3, 0x3F5), (0x3F7, 0x481), (0x48A, 0x52F),
      (0x531, 0x556), (0x560, 0x588), (0x10A0, 0x10C5), (0x10C7, 0x10C7), (0x10CD, 0x10CD),
      (0x10D0, 0x10FA), (0x10FD, 0x10FF), (0x13A0, 0x13F5), (0x13F8, 0x13FD), (0x1C80, 0x1C88),
      (0x1C90, 0x1CBA), (0x1CBD, 0x1CBF), (0x1D00, 0x1DBF), (0x1E00, 0x1F15), (0x1F18, 0x1F1D),
      (0x1F20, 0x1F45), (0x1F48, 0x1F4D), (0x1F50, 0x1F57), (0x1F59, 0x1F59), (0x1F5B, 0x1F5B),
      (0x1F5D, 0x1F5D), (0x1F5F, 0x1F7D), (0x1F80, 0x1FB4), (0x1FB6, 0x1FBC), (0x1FBE, 0x1FBE),
      (0x1FC2, 0x1FC4), (0x1FC6, 0x1FCC), (0x1FD0, 0x1FD3), (0x1FD6, 0x1FDB), (0x1FE0, 0x1FEC),
      (0x1FF2, 0x1FF4), (0x1FF6, 0x1FFC), (0x2071, 0x2071), (0x207F, 0x207F), (0x2090, 0x209C),
      (0x2102, 0x2102), (0x2107, 0x2107), (0x210A, 0x2113), (0x2115, 0x2115), (0x2119, 0x211D),
      (0x2124, 0x2124), (0x2126, 0x2126), (0x2128, 0x2128), (0x212A, 0x212D), (0x212F, 0x2134),
      (0x2139, 0x2139), (0x213C, 0x213F), (0x2145, 0x2149), (0x214E, 0x214E), (0x2160, 0x217F),
      (0x2183, 0x2184), (0x24B6, 0x24E9), (0x2C00, 0x2CE4), (0x2CEB, 0x2CEE), (0x2CF2, 0x2CF3),
      (0x2D00, 0x2D25), (0x2D27, 0x2D27), (0x2D2D, 0x2D2D), (0xA640, 0xA66D), (0xA680, 0xA69D),
      (0xA722, 0xA787), (0xA78B, 0xA78E), (0xA790, 0xA7CA), (0xA7D0, 0xA7D1), (0xA7D3, 0xA7D3),
      (0xA7D5, 0xA7D9), (0xA7F5, 0xA7F6), (0xA7F8, 0xA7FA), (0xAB30, 0xAB5A), (0xAB5C, 0xAB68),
      (0xAB70, 0xABBF), (0xFB00, 0xFB06), (0xFB13, 0xFB17), (0xFF21, 0xFF3A), (0xFF41, 0xFF5A),
      (0x10400, 0x1044F), (0x104B0, 0x104D3), (0x104D8, 0x104FB), (0x10570, 0x1057A), (0x1057C, 0x1058A),
      (0x1058C, 0x10592), (0x10594, 0x10595), (0x10597, 0x105A1), (0x105A3, 0x105B1), (0x105B3, 0x105B9),
      (0x105BB, 0x105BC), (0x10780, 0x10780), (0x10783, 0x10785), (0x10787, 0x107B0), (0x107B2, 0x107BA),
      (0x10C80, 0x10CB2), (0x10CC0, 0x10CF2), (0x118A0, 0x118DF), (0x16E40, 0x16E7F), (0x1D400, 0x1D454),
      (0x1D456, 0x1D49C), (0x1D49E, 0x1D49F), (0x1D4A2, 0x1D4A2), (0x1D4A5, 0x1D4A6), (0x1D4A9, 0x1D4AC),
      (0x1D4AE, 0x1D4B9), (0x1D4BB, 0x1D4BB), (0x1D4BD, 0x1D4C3), (0x1D4C5, 0x1D505), (0x1D507, 0x1D50A),
      (0x1D50D, 0x1D514), (0x1D516, 0x1D51C), (0x1D51E, 0x1D539), (0x1D53B, 0x1D53E), (0x1D540, 0x1D544),
      (0x1D546, 0x1D546), (0x1D54A, 0x1D550), (0x1D552, 0x1D6A5), (0x1D6A8, 0x1D6C0), (0x1D6C2, 0x1D6DA),
      (0x1D6DC, 0x1D6FA), (0x1D6FC, 0x1D714), (0x1D716, 0x1D734), (0x1D736, 0x1D74E), (0x1D750, 0x1D76E),
      (0x1D770, 0x1D788), (0x1D78A, 0x1D7A8), (0x1D7AA, 0x1D7C2), (0x1D7C4, 0x1D7CB), (0x1DF00, 0x1DF09),
      (0x1DF0B, 0x1DF1E), (0x1E900, 0x1E943), (0x1F130, 0x1F149), (0x1F150, 0x1F169), (0x1F170, 0x1F189)
     ]"

definition inRanges :: "(nat \<times> nat) list \<Rightarrow> nat \<Rightarrow> bool" where
  "inRanges table c = list_ex (\<lambda>(lo, hi). lo \<le> c \<and> c \<le> hi) table"

definition lowerPoint :: "nat \<Rightarrow> nat list" where
  "lowerPoint c =
     (if c = 0x130 then [0x69, 0x307]
      else case find (\<lambda>(lo, hi, step, lower).
                        lo \<le> c \<and> c \<le> hi \<and> (c - lo) mod step = 0) lowerTable of
             Some (lo, hi, step, lower) \<Rightarrow> [lower + (c - lo)]
           | None \<Rightarrow> [c])"

text \<open>
  The context of \<^verbatim>\<open>Final_Sigma\<close>, in one direction: case-ignorable code points are
  skipped, and the first other code point decides.
\<close>

fun casedNext :: "nat list \<Rightarrow> bool" where
  "casedNext [] = False"
| "casedNext (c # cs) =
     (if inRanges caseIgnorableTable c then casedNext cs else inRanges casedTable c)"

fun stringToCodePoints :: "jstring \<Rightarrow> nat list" where
  "stringToCodePoints (h # l # rest) =
     (if 0xD800 \<le> h \<and> h \<le> 0xDBFF \<and> 0xDC00 \<le> l \<and> l \<le> 0xDFFF
      then (0x10000 + (h - 0xD800) * 0x400 + (l - 0xDC00)) # stringToCodePoints rest
      else h # stringToCodePoints (l # rest))"
| "stringToCodePoints [h] = [h]"
| "stringToCodePoints [] = []"

definition codePointToUnits :: "nat \<Rightarrow> jstring" where
  "codePointToUnits c =
     (if c < 0x10000 then [c]
      else [0xD800 + (c - 0x10000) div 0x400, 0xDC00 + (c - 0x10000) mod 0x400])"

text \<open>\<open>seen\<close> holds the code points already seen, the nearest first.\<close>

fun lowerPoints :: "nat list \<Rightarrow> nat list \<Rightarrow> nat list" where
  "lowerPoints seen [] = []"
| "lowerPoints seen (c # rest) =
     (if c = 0x3A3 \<and> casedNext seen \<and> \<not> casedNext rest then [0x3C2] else lowerPoint c)
     @ lowerPoints (c # seen) rest"

definition toLowerCase :: "jstring \<Rightarrow> jstring" where
  "toLowerCase s = concat (map codePointToUnits (lowerPoints [] (stringToCodePoints s)))"

text \<open>
  On a string of ASCII and of code units from U+2E80 to U+A63F (the CJK blocks, which have
  no case), lower-casing is the ASCII one.
\<close>

definition asciiLower :: "nat \<Rightarrow> nat" where
  "asciiLower c = (if 65 \<le> c \<and> c \<le> 90 then c + 32 else c)"

definition plain :: "nat \<Rightarrow> bool" where
  "plain c \<longleftrightarrow> c < 128 \<or> (0x2E80 \<le> c \<and> c < 0xA640)"

text \<open>\<^verbatim>\<open>s.includes(k)\<close>: \<open>k\<close> occurs in \<open>s\<close> as a contiguous block.\<close>

fun jsIncludes :: "jstring \<Rightarrow> jstring \<Rightarrow> bool" where
  "jsIncludes [] k = (k = [])"
| "jsIncludes (c # cs) k = (prefix k (c # cs) \<or> jsIncludes cs k)"

definition startsWith :: "jstring \<Rightarrow> jstring \<Rightarrow> bool" where
  "startsWith s k = prefix k s"

section \<open>Node's path module on names (POSIX flavour)\<close>

text \<open>
  \<^verbatim>\<open>path.extname\<close> and \<^verbatim>\<open>path.basename\<close> look at the last segment of their argument,
  trailing separators dropped. The extension starts at the last dot of that segment; there
  is none when the segment has no dot, when its only dot is its first character, or when
  the segment is \<^verbatim>\<open>..\<close>.
\<close>

definition lastSegment :: "jstring \<Rightarrow> jstring" where
  "lastSegment p = rev (takeWhile (\<lambda>c. c \<noteq> 47) (dropWhile (\<lambda>c. c = 47) (rev p)))"

definition extnameSeg :: "jstring \<Rightarrow> jstring" where
  "extnameSeg seg =
     (let afterDot = takeWhile (\<lambda>c. c \<noteq> 46) (rev seg) in
      if length afterDot = length seg then []
      else let startDot = length seg - length afterDot - 1 in
        if startDot = 0 then []
        else if seg = [46, 46] then []
        else drop startDot seg)"

definition extname :: "jstring \<Rightarrow> jstring" where
  "extname p = extnameSeg (lastSegment p)"

text \<open>
  \<^verbatim>\<open>path.basename(p, ext)\<close>: the last segment, with \<open>ext\<close> cut off its end when it ends
  with \<open>ext\<close> (compared case-sensitively) and is longer than \<open>ext\<close>.
\<close>

definition basename :: "jstring \<Rightarrow> jstring \<Rightarrow> jstring" where
  "basename p ext =
     (let seg = lastSegment p in
      if ext \<noteq> [] \<and> length ext \<le> length p then
        (if ext = p then []
         else if prefix (rev ext) (rev seg) \<and> length ext < length seg
           then take (length seg - length ext) seg
         else seg)
      else seg)"

section \<open>Classifier\<close>

text \<open>
  The category labels of the source, by code unit: contract U+5408 U+540C, invoice
  U+53D1 U+7968, screenshot U+622A U+56FE, manual U+8BF4 U+660E U+4E66, image U+56FE
  U+7247, video U+89C6 U+9891, audio U+97F3 U+9891, document U+6587 U+6863, archive
  U+538B U+7F29 U+5305, code U+4EE3 U+7801, program U+7A0B U+5E8F, shortcut U+5FEB
  U+6377 U+65B9 U+5F0F, folder U+6587 U+4EF6 U+5939, download U+4E0B U+8F7D, backup
  U+5907 U+4EFD, other U+5176 U+4ED6.
\<close>

abbreviation cat_contract :: jstring where "cat_contract \<equiv> [0x5408, 0x540C]"
abbreviation cat_invoice :: jstring where "cat_invoice \<equiv> [0x53D1, 0x7968]"
abbreviation cat_screenshot :: jstring where "cat_screenshot \<equiv> [0x622A, 0x56FE]"
abbreviation cat_manual :: jstring where "cat_manual \<equiv> [0x8BF4, 0x660E, 0x4E66]"
abbreviation cat_image :: jstring where "cat_image \<equiv> [0x56FE, 0x7247]"
abbreviation cat_video :: jstring where "cat_video \<equiv> [0x89C6, 0x9891]"
abbreviation cat_audio :: jstring where "cat_audio \<equiv> [0x97F3, 0x9891]"
abbreviation cat_document :: jstring where "cat_document \<equiv> [0x6587, 0x6863]"
abbreviation cat_archive :: jstring where "cat_archive \<equiv> [0x538B, 0x7F29, 0x5305]"
abbreviation cat_code :: jstring where "cat_code \<equiv> [0x4EE3, 0x7801]"
abbreviation cat_program :: jstring where "cat_program \<equiv> [0x7A0B, 0x5E8F]"
abbreviation cat_shortcut :: jstring where "cat_shortcut \<equiv> [0x5FEB, 0x6377, 0x65B9, 0x5F0F]"
abbreviation cat_folder :: jstring where "cat_folder \<equiv> [0x6587, 0x4EF6, 0x5939]"
abbreviation cat_download :: jstring where "cat_download \<equiv> [0x4E0B, 0x8F7D]"
abbreviation cat_backup :: jstring where "cat_backup \<equiv> [0x5907, 0x4EFD]"
abbreviation cat_other :: jstring where "cat_other \<equiv> [0x5176, 0x4ED6]"

definition shortcutExtensions :: "jstring list" where
  "shortcutExtensions = [js ''.lnk'', js ''.desktop'', js ''.url'', js ''.webloc'']"

definition isShortcutOrLink :: "jstring \<Rightarrow> bool" where
  "isShortcutOrLink fileName = (toLowerCase (extname fileName) \<in> set shortcutExtensions)"

definition extCategoryMap :: "(jstring \<times> jstring) list" where
  "extCategoryMap =
  [
    (js ''.jpg'', cat_image), (js ''.jpeg'', cat_image), (js ''.png'', cat_image),
    (js ''.gif'', cat_image), (js ''.bmp'', cat_image), (js ''.webp'', cat_image),
    (js ''.svg'', cat_image), (js ''.ico'', cat_image), (js ''.tiff'', cat_image),
    (js ''.raw'', cat_image), (js ''.heic'', cat_image), (js ''.heif'', cat_image),
    (js ''.mp4'', cat_video), (js ''.avi'', cat_video), (js ''.mov'', cat_video),
    (js ''.wmv'', cat_video), (js ''.flv'', cat_video), (js ''.mkv'', cat_video),
    (js ''.webm'', cat_video), (js ''.m4v'', cat_video), (js ''.rmvb'', cat_video),
    (js ''.rm'', cat_video), (js ''.3gp'', cat_video), (js ''.mp3'', cat_audio),
    (js ''.wav'', cat_audio), (js ''.flac'', cat_audio), (js ''.aac'', cat_audio),
    (js ''.ogg'', cat_audio), (js ''.wma'', cat_audio), (js ''.m4a'', cat_audio),
    (js ''.ape'', cat_audio), (js ''.doc'', cat_document), (js ''.docx'', cat_document),
    (js ''.pdf'', cat_document), (js ''.txt'', cat_document), (js ''.rtf'', cat_document),
    (js ''.odt'', cat_document), (js ''.md'', cat_document), (js ''.epub'', cat_document),
    (js ''.xls'', cat_document), (js ''.xlsx'', cat_document), (js ''.csv'', cat_document),
    (js ''.ppt'', cat_document), (js ''.pptx'', cat_document), (js ''.key'', cat_document),
    (js ''.zip'', cat_archive), (js ''.rar'', cat_archive), (js ''.7z'', cat_archive),
    (js ''.tar'', cat_archive), (js ''.gz'', cat_archive), (js ''.bz2'', cat_archive),
    (js ''.xz'', cat_archive), (js ''.js'', cat_code), (js ''.jsx'', cat_code),
    (js ''.ts'', cat_code), (js ''.tsx'', cat_code), (js ''.py'', cat_code),
    (js ''.java'', cat_code), (js ''.c'', cat_code), (js ''.cpp'', cat_code),
    (js ''.h'', cat_code), (js ''.hpp'', cat_code), (js ''.css'', cat_code),
    (js ''.scss'', cat_code), (js ''.less'', cat_code), (js ''.html'', cat_code),
    (js ''.htm'', cat_code), (js ''.vue'', cat_code), (js ''.json'', cat_code),
    (js ''.xml'', cat_code), (js ''.sql'', cat_code), (js ''.sh'', cat_code),
    (js ''.bat'', cat_code), (js ''.ps1'', cat_code), (js ''.go'', cat_code),
    (js ''.rs'', cat_code), (js ''.rb'', cat_code), (js ''.php'', cat_code),
    (js ''.swift'', cat_code), (js ''.kt'', cat_code), (js ''.scala'', cat_code),
    (js ''.r'', cat_code), (js ''.m'', cat_code), (js ''.lua'', cat_code),
    (js ''.yml'', cat_code), (js ''.yaml'', cat_code), (js ''.toml'', cat_code),
    (js ''.ini'', cat_code), (js ''.exe'', cat_program), (js ''.msi'', cat_program),
    (js ''.dmg'', cat_program), (js ''.app'', cat_program), (js ''.apk'', cat_program),
    (js ''.deb'', cat_program), (js ''.rpm'', cat_program), (js ''.pkg'', cat_program),
    (js ''.lnk'', cat_shortcut), (js ''.desktop'', cat_shortcut), (js ''.url'', cat_shortcut),
    (js ''.webloc'', cat_shortcut)]"

definition codeProjectFolders :: "jstring list" where
  "codeProjectFolders =
  [
    js ''node_modules'', js ''src'', js ''dist'', js ''build'', js ''lib'',
    js ''bin'', js ''out'', js ''target'', js ''test'', js ''tests'',
    js ''__tests__'', js ''spec'', js ''specs'', js ''coverage'', js ''.git'',
    js ''.svn'', js ''.hg'', js ''.vscode'', js ''.idea'', js ''packages'',
    js ''vendor'', js ''venv'', js ''env'', js ''.env'', js ''__pycache__'']"

text \<open>
  The keyword rules, in the order of the source: invoice (U+53D1 U+7968, invoice, receipt,
  U+6536 U+636E), contract (U+5408 U+540C, contract, U+534F U+8BAE, agreement), screenshot,
  manual, and two rules that both give the document category (resume, report).
\<close>

definition keywordRules :: "(jstring list \<times> jstring) list" where
  "keywordRules =
  [
    ([[0x53D1, 0x7968], js ''invoice'', js ''receipt'', [0x6536, 0x636E]], cat_invoice),
    ([[0x5408, 0x540C], js ''contract'', [0x534F, 0x8BAE], js ''agreement''], cat_contract),
    ([[0x622A, 0x56FE], js ''screenshot'', js ''snip'', js ''capture''], cat_screenshot),
    ([[0x8BF4, 0x660E, 0x4E66], js ''manual'', js ''guide'', [0x6307, 0x5357], [0x6559, 0x7A0B]],
       cat_manual),
    ([[0x7B80, 0x5386], js ''resume'', js ''cv''], cat_document),
    ([[0x62A5, 0x544A], js ''report''], cat_document)]"

definition folderKeywordRules :: "(jstring list \<times> jstring) list" where
  "folderKeywordRules =
  [
    ([[0x56FE, 0x7247], js ''images'', js ''photos'', js ''pictures'', js ''img'', js ''pic'',
       [0x7167, 0x7247], [0x76F8, 0x518C]], cat_image),
    ([[0x89C6, 0x9891], js ''videos'', js ''movies'', [0x7535, 0x5F71], [0x5F71, 0x7247],
       js ''video''], cat_video),
    ([[0x97F3, 0x4E50], js ''music'', js ''audio'', [0x6B4C, 0x66F2], js ''songs''], cat_audio),
    ([[0x6587, 0x6863], js ''documents'', js ''docs'', [0x8D44, 0x6599]], cat_document),
    ([[0x4EE3, 0x7801], js ''code'', js ''source'', js ''project'', js ''projects'',
       [0x9879, 0x76EE], [0x5F00, 0x53D1]], cat_code),
    ([[0x4E0B, 0x8F7D], js ''downloads''], cat_download),
    ([[0x5907, 0x4EFD], js ''backup'', js ''backups''], cat_backup),
    ([[0x7A0B, 0x5E8F], js ''software'', js ''apps'', js ''applications'', [0x8F6F, 0x4EF6]],
       cat_program)]"

text \<open>
  \<^verbatim>\<open>rule.keywords.some(k => lowerName.includes(k.toLowerCase()))\<close>, and the loop that
  returns the category of the first rule for which it holds.
\<close>

definition ruleMatches :: "jstring list \<Rightarrow> jstring \<Rightarrow> bool" where
  "ruleMatches keywords lowerName = list_ex (\<lambda>k. jsIncludes lowerName (toLowerCase k)) keywords"

fun matchRules :: "(jstring list \<times> jstring) list \<Rightarrow> jstring \<Rightarrow> jstring option" where
  "matchRules [] lowerName = None"
| "matchRules ((keywords, category) # rules) lowerName =
     (if ruleMatches keywords lowerName then Some category else matchRules rules lowerName)"

definition screenshotImageExtensions :: "jstring list" where
  "screenshotImageExtensions = [js ''.jpg'', js ''.jpeg'', js ''.png'', js ''.gif'', js ''.webp'']"

definition classifyFile :: "jstring \<Rightarrow> bool \<Rightarrow> bool \<Rightarrow> jstring" where
  "classifyFile fileName isDirectory isSymlink =
     (let ext = toLowerCase (extname fileName);
          lowerName = toLowerCase (basename fileName ext) in
      if isSymlink then cat_shortcut
      else if isDirectory then
        (if list_ex (\<lambda>k. lowerName = k) codeProjectFolders then cat_code
         else case matchRules folderKeywordRules lowerName of
                Some category \<Rightarrow> category
              | None \<Rightarrow> cat_folder)
      else if isShortcutOrLink fileName then cat_shortcut
      else case matchRules keywordRules lowerName of
        Some category \<Rightarrow> category
      | None \<Rightarrow>
          if ext \<in> set screenshotImageExtensions \<and>
             (jsIncludes lowerName (js ''screenshot'') \<or> jsIncludes lowerName [0x622A, 0x56FE] \<or>
              jsIncludes lowerName (js ''screen'') \<or> startsWith lowerName (js ''snip''))
          then cat_screenshot
          else (case map_of extCategoryMap ext of Some category \<Rightarrow> category | None \<Rightarrow> cat_other))"

section \<open>Regular expressions of the source\<close>

text \<open>
  The patterns of the source use character classes, literals, concatenation, alternation,
  optional parts, and repetition of a single character class; all are anchored at the
  start of the name. \<open>remainders r s\<close> lists what is left of \<open>s\<close> after each way of
  matching \<open>r\<close> at its start, in the order in which a backtracking matcher tries them
  (the left alternative first, the longest repetition first). So \<^verbatim>\<open>/^r/.test(s)\<close> holds
  when the list is not empty, \<^verbatim>\<open>/^r$/.test(s)\<close> when it contains the empty string, and
  \<^verbatim>\<open>s.replace(/^r/, '')\<close> is the head of the list.
\<close>

datatype rx =
    Eps
  | Cls "(nat \<times> nat) list"
  | Many "(nat \<times> nat) list"
  | Seq rx rx
  | Alt rx rx

definition inClass :: "(nat \<times> nat) list \<Rightarrow> nat \<Rightarrow> bool" where
  "inClass ranges c = list_ex (\<lambda>(lo, hi). lo \<le> c \<and> c \<le> hi) ranges"

fun remainders :: "rx \<Rightarrow> jstring \<Rightarrow> jstring list" where
  "remainders Eps s = [s]"
| "remainders (Cls ranges) [] = []"
| "remainders (Cls ranges) (c # cs) = (if inClass ranges c then [cs] else [])"
| "remainders (Many ranges) [] = [[]]"
| "remainders (Many ranges) (c # cs) =
     (if inClass ranges c then remainders (Many ranges) cs @ [c # cs] else [c # cs])"
| "remainders (Seq a b) s = concat (map (remainders b) (remainders a s))"
| "remainders (Alt a b) s = remainders a s @ remainders b s"

text \<open>A pattern is anchored at the start; \<open>Whole\<close> is also anchored at the end.\<close>

datatype pattern = Prefix rx | Whole rx

fun test :: "pattern \<Rightarrow> jstring \<Rightarrow> bool" where
  "test (Prefix r) s = (remainders r s \<noteq> [])"
| "test (Whole r) s = ([] \<in> set (remainders r s))"

definition replaceFirst :: "rx \<Rightarrow> jstring \<Rightarrow> jstring" where
  "replaceFirst r s = (case remainders r s of [] \<Rightarrow> s | t # ts \<Rightarrow> t)"

fun seqs :: "rx list \<Rightarrow> rx" where
  "seqs [] = Eps"
| "seqs [r] = r"
| "seqs (r # rs) = Seq r (seqs rs)"

definition opt :: "rx \<Rightarrow> rx" where
  "opt r = Alt r Eps"

text \<open>\<^verbatim>\<open>c{n}\<close>, \<^verbatim>\<open>c{n,}\<close>, \<^verbatim>\<open>c+\<close> and \<^verbatim>\<open>c*\<close> for a character class \<open>c\<close>.\<close>

definition exactly_rx :: "nat \<Rightarrow> (nat \<times> nat) list \<Rightarrow> rx" where
  "exactly_rx n ranges = seqs (replicate n (Cls ranges))"

definition atLeast_rx :: "nat \<Rightarrow> (nat \<times> nat) list \<Rightarrow> rx" where
  "atLeast_rx n ranges = seqs (replicate n (Cls ranges) @ [Many ranges])"

text \<open>A literal, compared code unit by code unit.\<close>

definition lit :: "jstring \<Rightarrow> rx" where
  "lit s = seqs (map (\<lambda>c. Cls [(c, c)]) s)"

text \<open>
  A literal under the \<^verbatim>\<open>i\<close> flag. Without the \<^verbatim>\<open>u\<close> flag a code unit outside ASCII is never
  equated with an ASCII letter, so an ASCII letter matches its two cases and nothing else.
\<close>

definition ciUnit :: "nat \<Rightarrow> rx" where
  "ciUnit c =
     (if 65 \<le> c \<and> c \<le> 90 then Cls [(c, c), (c + 32, c + 32)]
      else if 97 \<le> c \<and> c \<le> 122 then Cls [(c - 32, c - 32), (c, c)]
      else Cls [(c, c)])"

definition liti :: "string \<Rightarrow> rx" where
  "liti s = seqs (map ciUnit (js s))"

abbreviation digit :: "(nat \<times> nat) list" where
  "digit \<equiv> [(48, 57)]"

abbreviation sep :: "(nat \<times> nat) list" where
  "sep \<equiv> [(45, 45), (95, 95)]"

text \<open>\<^verbatim>\<open>[a-f0-9]\<close>, \<^verbatim>\<open>[a-z0-9]\<close> and \<^verbatim>\<open>[a-f0-9-]\<close> under the \<^verbatim>\<open>i\<close> flag.\<close>

abbreviation hexI :: "(nat \<times> nat) list" where
  "hexI \<equiv> [(97, 102), (65, 70), (48, 57)]"

abbreviation alnumI :: "(nat \<times> nat) list" where
  "alnumI \<equiv> [(97, 122), (65, 90), (48, 57)]"

abbreviation hexDashI :: "(nat \<times> nat) list" where
  "hexDashI \<equiv> [(97, 102), (65, 70), (48, 57), (45, 45)]"

text \<open>\<^verbatim>\<open>\s\<close>: the white space and line terminator code units of ECMAScript.\<close>

definition whiteSpace :: "(nat \<times> nat) list" where
  "whiteSpace =
     [(9, 13), (32, 32), (0xA0, 0xA0), (0x1680, 0x1680), (0x2000, 0x200A),
      (0x2028, 0x2029), (0x202F, 0x202F), (0x205F, 0x205F), (0x3000, 0x3000),
      (0xFEFF, 0xFEFF)]"

section \<open>Messy file names\<close>

text \<open>
  The patterns of \<^verbatim>\<open>isMessyFileName\<close>, in the order of the source. The CJK literals are:
  U+5C4F U+5E55 U+622A U+56FE (screen capture), U+622A U+5C4F, the chat and meeting tool
  prefixes ending in U+622A U+56FE or U+56FE U+7247, U+65B0 U+5EFA (new) followed by any
  of the characters of U+6587 U+6863 U+6587 U+672C U+8868 U+683C U+5E7B U+706F U+7247,
  U+672A U+547D U+540D (unnamed), U+526F U+672C (copy), U+6587 U+6863 (document), and
  U+590D U+5236 (copy).
\<close>

definition messyPatterns :: "pattern list" where
  "messyPatterns =
   [ Whole (atLeast_rx 8 hexI),
     Whole (atLeast_rx 24 alnumI),
     Whole (atLeast_rx 32 hexDashI),

     Prefix (seqs [liti ''IMG_'', exactly_rx 8 digit, opt (Cls sep), exactly_rx 6 digit]),
     Prefix (seqs [liti ''DSC'', opt (lit (js ''_'')), atLeast_rx 4 digit]),
     Prefix (seqs [liti ''DCIM'', opt (lit (js ''_'')), atLeast_rx 1 digit]),
     Prefix (seqs [liti ''P'', opt (lit (js ''_'')), exactly_rx 8 digit, opt (Cls sep), exactly_rx 6 digit]),
     Prefix (seqs [liti ''VID_'', exactly_rx 8 digit, opt (Cls sep), exactly_rx 6 digit]),
     Prefix (seqs [liti ''PHOTO'', opt (Cls sep), atLeast_rx 1 digit]),
     Prefix (seqs [liti ''VIDEO'', opt (Cls sep), atLeast_rx 1 digit]),
     Prefix (seqs [liti ''PXL_'', exactly_rx 8 digit, opt (Cls sep), atLeast_rx 1 digit]),

     Prefix (seqs [liti ''Screenshot_'', atLeast_rx 1 digit]),
     Prefix (seqs [liti ''Snipaste_'', atLeast_rx 1 digit]),
     Prefix (seqs [liti ''Screen'', opt (Cls whiteSpace), liti ''Shot'', opt (Cls whiteSpace),
                   atLeast_rx 1 digit]),
     Prefix (seqs [lit [0x5C4F, 0x5E55, 0x622A, 0x56FE], opt (Cls whiteSpace), atLeast_rx 1 digit]),
     Prefix (seqs [lit [0x622A, 0x5C4F], atLeast_rx 1 digit]),
     Prefix (seqs [lit [0x4F01, 0x4E1A, 0x5FAE, 0x4FE1, 0x622A, 0x56FE], opt (Cls sep),
                   atLeast_rx 1 digit]),
     Prefix (seqs [lit [0x5FAE, 0x4FE1, 0x56FE, 0x7247], opt (Cls sep), atLeast_rx 1 digit]),
     Prefix (seqs [lit (js ''QQ'' @ [0x622A, 0x56FE]), atLeast_rx 1 digit]),
     Prefix (seqs [lit [0x9489, 0x9489, 0x622A, 0x56FE], opt (Cls sep), atLeast_rx 1 digit]),
     Prefix (seqs [lit [0x98DE, 0x4E66, 0x622A, 0x56FE], opt (Cls sep), atLeast_rx 1 digit]),
     Prefix (seqs [lit [0x817E, 0x8BAF, 0x4F1A, 0x8BAE, 0x622A, 0x56FE], opt (Cls sep),
                   atLeast_rx 1 digit]),
     Prefix (seqs [liti ''Wechat'', opt (Cls sep), atLeast_rx 1 digit]),

     Whole (atLeast_rx 13 digit),
     Whole (exactly_rx 10 digit),
     Whole (seqs [exactly_rx 8 digit, opt (Cls sep), exactly_rx 6 digit]),

     Whole (seqs [liti ''tmp'', opt (Cls sep), atLeast_rx 1 alnumI]),
     Whole (seqs [liti ''temp'', opt (Cls sep), atLeast_rx 1 alnumI]),
     Whole (seqs [liti ''download'', opt (Cls sep), opt (lit (js ''('')), Many digit,
                  opt (lit (js '')''))]),
     Whole (seqs [liti ''untitled'', opt (Cls sep), Many digit]),
     Whole (seqs [liti ''unnamed'', opt (Cls sep), Many digit]),
     Whole (seqs [lit [0x65B0, 0x5EFA],
                  Many [(0x6587, 0x6587), (0x6863, 0x6863), (0x672C, 0x672C), (0x8868, 0x8868),
                        (0x683C, 0x683C), (0x5E7B, 0x5E7B), (0x706F, 0x706F), (0x7247, 0x7247)],
                  opt (Cls sep), Many digit]),
     Whole (seqs [lit [0x672A, 0x547D, 0x540D], opt (Cls sep), Many digit]),
     Whole (seqs [lit [0x526F, 0x672C], opt (Cls sep), Many digit]),
     Whole (seqs [lit [0x6587, 0x6863], Many digit]),
     Prefix (seqs [liti ''Copy'', opt (Cls whiteSpace),
                   opt (seqs [liti ''of'', opt (Cls whiteSpace)])]),
     Prefix (seqs [lit [0x590D, 0x5236], opt (Cls whiteSpace)]),
     Whole (seqs [lit (js ''(''), atLeast_rx 1 digit, lit (js '')'')]),

     Prefix (seqs [exactly_rx 8 alnumI, lit (js ''-''), exactly_rx 4 alnumI, lit (js ''-''),
                   exactly_rx 4 alnumI]) ]"

definition isMessyFileName :: "jstring \<Rightarrow> bool" where
  "isMessyFileName fileName =
     (let ext = extname fileName;
          name = basename fileName ext in
      if length name < 4 then False
      else list_ex (\<lambda>pattern. test pattern name) messyPatterns)"

section \<open>Numbers and dates as text\<close>

text \<open>Decimal rendering of a number, as a template literal or \<^verbatim>\<open>String(n)\<close> gives it.\<close>

fun natToString :: "nat \<Rightarrow> jstring" where
  "natToString n = (if n < 10 then [48 + n] else natToString (n div 10) @ [48 + n mod 10])"

declare natToString.simps [simp del]

definition intToString :: "int \<Rightarrow> jstring" where
  "intToString i = (if i < 0 then 45 # natToString (nat (- i)) else natToString (nat i))"

text \<open>\<^verbatim>\<open>s.padStart(2, '0')\<close>\<close>

definition padStart2 :: "jstring \<Rightarrow> jstring" where
  "padStart2 s = replicate (2 - length s) 48 @ s"

text \<open>
  What the code reads from a \<^verbatim>\<open>Date\<close>: an invalid date (every getter gives \<^verbatim>\<open>NaN\<close>), or
  the local calendar fields \<^verbatim>\<open>getFullYear()\<close>, \<^verbatim>\<open>getMonth()\<close> (from 0) and \<^verbatim>\<open>getDate()\<close>.
\<close>

datatype jsdate = InvalidDate | LocalDate int nat nat

fun formatDate :: "jsdate \<Rightarrow> jstring" where
  "formatDate InvalidDate = js ''NaN'' @ padStart2 (js ''NaN'') @ padStart2 (js ''NaN'')"
| "formatDate (LocalDate fullYear month date) =
     intToString fullYear @ padStart2 (natToString (month + 1)) @ padStart2 (natToString date)"

section \<open>Date token\<close>

definition isDigit :: "nat \<Rightarrow> bool" where
  "isDigit c = (48 \<le> c \<and> c \<le> 57)"

text \<open>\<^verbatim>\<open>(\d{n})\<close> at the start of \<open>s\<close>: the group and the rest.\<close>

fun digitsPrefix :: "nat \<Rightarrow> jstring \<Rightarrow> (jstring \<times> jstring) option" where
  "digitsPrefix 0 s = Some ([], s)"
| "digitsPrefix (Suc n) [] = None"
| "digitsPrefix (Suc n) (c # cs) =
     (if isDigit c then
        (case digitsPrefix n cs of None \<Rightarrow> None | Some (ds, rest) \<Rightarrow> Some (c # ds, rest))
      else None)"

text \<open>\<^verbatim>\<open>[-_]?\<close> and \<^verbatim>\<open>[-_]\<close> at the start of \<open>s\<close>: the rest.\<close>

fun optSep :: "jstring \<Rightarrow> jstring" where
  "optSep [] = []"
| "optSep (c # cs) = (if c = 45 \<or> c = 95 then cs else c # cs)"

fun reqSep :: "jstring \<Rightarrow> jstring option" where
  "reqSep [] = None"
| "reqSep (c # cs) = (if c = 45 \<or> c = 95 then Some cs else None)"

text \<open>
  \<^verbatim>\<open>/(\d{4})[-_]?(\d{2})[-_]?(\d{2})/\<close> and \<^verbatim>\<open>/(\d{2})[-_](\d{2})[-_](\d{4})/\<close> at the
  start of \<open>s\<close>: the three groups. A separator that is there is always taken: leaving it
  out would put it where a digit has to be.
\<close>

definition matchYMD :: "jstring \<Rightarrow> (jstring \<times> jstring \<times> jstring) option" where
  "matchYMD s =
     (case digitsPrefix 4 s of None \<Rightarrow> None
      | Some (g1, r1) \<Rightarrow>
        (case digitsPrefix 2 (optSep r1) of None \<Rightarrow> None
         | Some (g2, r2) \<Rightarrow>
           (case digitsPrefix 2 (optSep r2) of None \<Rightarrow> None
            | Some (g3, r3) \<Rightarrow> Some (g1, g2, g3))))"

definition matchDMY :: "jstring \<Rightarrow> (jstring \<times> jstring \<times> jstring) option" where
  "matchDMY s =
     (case digitsPrefix 2 s of None \<Rightarrow> None
      | Some (g1, r1) \<Rightarrow>
        (case reqSep r1 of None \<Rightarrow> None
         | Some r1' \<Rightarrow>
           (case digitsPrefix 2 r1' of None \<Rightarrow> None
            | Some (g2, r2) \<Rightarrow>
              (case reqSep r2 of None \<Rightarrow> None
               | Some r2' \<Rightarrow>
                 (case digitsPrefix 4 r2' of None \<Rightarrow> None
                  | Some (g3, r3) \<Rightarrow> Some (g1, g2, g3))))))"

text \<open>\<^verbatim>\<open>name.match(pattern)\<close> for an unanchored pattern: the leftmost match.\<close>

fun matchAnywhere :: "(jstring \<Rightarrow> 'a option) \<Rightarrow> jstring \<Rightarrow> 'a option" where
  "matchAnywhere m [] = m []"
| "matchAnywhere m (c # cs) =
     (case m (c # cs) of Some g \<Rightarrow> Some g | None \<Rightarrow> matchAnywhere m cs)"

definition datePatterns :: "(jstring \<Rightarrow> (jstring \<times> jstring \<times> jstring) option) list" where
  "datePatterns = [matchYMD, matchDMY]"

text \<open>The loop over \<open>datePatterns\<close>: the first pattern that matches decides.\<close>

fun dateFromName ::
  "(jstring \<Rightarrow> (jstring \<times> jstring \<times> jstring) option) list \<Rightarrow> jstring \<Rightarrow> jstring option" where
  "dateFromName [] name = None"
| "dateFromName (pattern # patterns) name =
     (case matchAnywhere pattern name of
        Some (g1, g2, g3) \<Rightarrow> Some (if length g1 = 4 then g1 @ g2 @ g3 else g3 @ g1 @ g2)
      | None \<Rightarrow> dateFromName patterns name)"

text \<open>
  \<^verbatim>\<open>extractDateFromFile\<close>. The \<^verbatim>\<open>Date\<close> constructor and the clock belong to the platform:
  \<open>parseDate\<close> is what \<^verbatim>\<open>new Date(modifiedTime)\<close> gives and \<open>now\<close> what \<^verbatim>\<open>new Date()\<close>
  gives. An absent or empty \<open>modifiedTime\<close> is falsy.
\<close>

definition extractDateFromFile ::
  "(jstring \<Rightarrow> jsdate) \<Rightarrow> jsdate \<Rightarrow> jstring \<Rightarrow> jstring option \<Rightarrow> jstring" where
  "extractDateFromFile parseDate now fileName modifiedTime =
     (let name = basename fileName (extname fileName) in
      case dateFromName datePatterns name of
        Some token \<Rightarrow> token
      | None \<Rightarrow>
          (case modifiedTime of
             Some t \<Rightarrow> if t \<noteq> [] then formatDate (parseDate t) else formatDate now
           | None \<Rightarrow> formatDate now))"

section \<open>Cleaned names\<close>

definition isDocumentFile :: "jstring \<Rightarrow> bool" where
  "isDocumentFile ext =
     (toLowerCase ext \<in> set
        [js ''.doc'', js ''.docx'', js ''.pdf'', js ''.txt'', js ''.rtf'', js ''.odt'', js ''.md'',
         js ''.xls'', js ''.xlsx'', js ''.csv'',
         js ''.ppt'', js ''.pptx'', js ''.key''])"

text \<open>\<^verbatim>\<open>String.prototype.trim\<close>\<close>

definition trim :: "jstring \<Rightarrow> jstring" where
  "trim s = rev (dropWhile (inClass whiteSpace) (rev (dropWhile (inClass whiteSpace) s)))"

definition cleanFileName :: "jstring \<Rightarrow> jstring" where
  "cleanFileName fileName =
     (let ext = extname fileName;
          name0 = basename fileName ext;
          name1 = replaceFirst
            (Alt (liti ''IMG_'')
            (Alt (seqs [liti ''DSC'', opt (lit (js ''_''))])
            (Alt (liti ''VID_'')
            (Alt (liti ''Screenshot_'')
            (Alt (liti ''Snipaste_'')
            (Alt (liti ''P_'') (liti ''DCIM_''))))))) name0;
          name2 = replaceFirst
            (seqs [exactly_rx 8 digit, opt (Cls sep), exactly_rx 6 digit, opt (Cls sep)]) name1;
          name3 = replaceFirst (seqs [atLeast_rx 13 digit, opt (Cls sep)]) name2;
          name4 = filter (inClass [(0x4e00, 0x9fa5), (97, 122), (65, 90), (48, 57),
                                   (45, 45), (95, 95)]) name3;
          name5 = (if length name4 > 30 then take 30 name4 else name4)
      in trim name5)"

section \<open>Plan builder\<close>

record fileInfo =
  name :: jstring
  path :: jstring
  extension :: jstring
  size_bytes :: nat
  isDirectory :: "bool option"
  isSymlink :: "bool option"
  modifiedTime :: "jstring option"

text \<open>One entry of \<open>results\<close>; \<open>confidence\<close> in hundredths.\<close>

record analysisResult =
  r_path :: jstring
  r_category :: jstring
  suggestedName :: jstring
  r_needsRename :: bool
  r_needsMove :: bool
  isShortcut :: bool
  confidence :: nat
  aiReason :: "jstring option"

text \<open>
  What the handler takes from outside the plan: the user name, the \<^verbatim>\<open>Date\<close> constructor
  and clock, whether the external tool was detected, and the \<^verbatim>\<open>files\<close> array of its parsed
  answer (name, category, reason), absent when the tool gave no answer that parses.
\<close>

record analysisEnv =
  currentUser :: jstring
  parseDate :: "jstring \<Rightarrow> jsdate"
  now :: jsdate
  isOpencodeAvailable :: bool
  aiFiles :: "(jstring \<times> jstring \<times> jstring) list option"

text \<open>
  \<^verbatim>\<open>categoryCount[category] = (categoryCount[category] || 0) + 1\<close> on an object whose keys
  keep their insertion order.
\<close>

fun bump :: "(jstring \<times> nat) list \<Rightarrow> jstring \<Rightarrow> (jstring \<times> nat) list" where
  "bump [] category = [(category, 1)]"
| "bump ((k, n) # rest) category =
     (if k = category then (k, n + 1) # rest else (k, n) # bump rest category)"

definition isDir :: "fileInfo \<Rightarrow> bool" where
  "isDir file = (isDirectory file = Some True)"

definition classify :: "fileInfo \<Rightarrow> jstring" where
  "classify file = classifyFile (name file) (isDir file) (isSymlink file = Some True)"

text \<open>First pass: the tally of the files that are not directories.\<close>

definition tally :: "(fileInfo \<times> jstring) list \<Rightarrow> (jstring \<times> nat) list" where
  "tally classifiedFiles =
     fold (\<lambda>(file, category) categoryCount.
             if isDir file then categoryCount else bump categoryCount category)
       classifiedFiles []"

definition decideFolders :: "(jstring \<times> nat) list \<Rightarrow> jstring list" where
  "decideFolders categoryCount =
     map fst (filter (\<lambda>(cat, count). count \<ge> 3 \<and> cat \<noteq> cat_shortcut \<and> cat \<noteq> cat_other)
                categoryCount)"

text \<open>Second pass, for one classified file.\<close>

definition suggest :: "analysisEnv \<Rightarrow> jstring list \<Rightarrow> fileInfo \<times> jstring \<Rightarrow> analysisResult" where
  "suggest env categoriesNeedingFolders fc =
     (let file = fst fc; category = snd fc;
          isShortcut = (isShortcutOrLink (name file) \<or> isSymlink file = Some True);
          needsMove = (\<not> isShortcut \<and> \<not> isDir file \<and> category \<in> set categoriesNeedingFolders);
          needsRename = (\<not> isDir file \<and> \<not> isShortcut \<and> isMessyFileName (name file));
          dateStr = extractDateFromFile (parseDate env) (now env) (name file) (modifiedTime file);
          cleanName = cleanFileName (name file);
          ext = extension file;
          suggestedName =
            (if needsRename then
               (if isDocumentFile ext then
                  (if cleanName \<noteq> [] then
                     dateStr @ js ''_'' @ currentUser env @ js ''_'' @ cleanName @ ext
                   else dateStr @ js ''_'' @ currentUser env @ js ''_'' @ cat_document @ ext)
                else if category = cat_screenshot then dateStr @ js ''_'' @ cat_screenshot @ ext
                else if cleanName \<noteq> [] then dateStr @ js ''_'' @ cleanName @ ext
                else dateStr @ js ''_'' @
                     (if category \<noteq> cat_other then category else [0x6587, 0x4EF6]) @ ext)
             else name file)
      in \<lparr> r_path = path file, r_category = category, suggestedName = suggestedName,
           r_needsRename = needsRename, r_needsMove = needsMove, isShortcut = isShortcut,
           confidence = 80, aiReason = None \<rparr>)"

text \<open>
  The answer of the external tool is merged in afterwards: for each of its entries, the
  first result with that base name and the category other takes the entry's category.
  (The source also raises \<open>categoryCount\<close> there; nothing reads it any more.)
\<close>

fun updateFirst :: "('a \<Rightarrow> bool) \<Rightarrow> ('a \<Rightarrow> 'a) \<Rightarrow> 'a list \<Rightarrow> 'a list" where
  "updateFirst P f [] = []"
| "updateFirst P f (x # xs) = (if P x then f x # xs else x # updateFirst P f xs)"

fun mergeAI :: "analysisResult list \<Rightarrow> (jstring \<times> jstring \<times> jstring) list \<Rightarrow> analysisResult list" where
  "mergeAI results [] = results"
| "mergeAI results ((aiName, aiCategory, aiReason') # rest) =
     mergeAI
       (if aiCategory \<noteq> cat_other then
          updateFirst (\<lambda>r. lastSegment (r_path r) = aiName \<and> r_category r = cat_other)
            (\<lambda>r. r\<lparr> r_category := aiCategory, confidence := 90, aiReason := Some aiReason' \<rparr>)
            results
        else results)
       rest"

record analysis =
  results :: "analysisResult list"
  usedAI :: bool
  categoriesNeedingFolders :: "jstring list"

definition analyzeFiles :: "analysisEnv \<Rightarrow> fileInfo list \<Rightarrow> analysis" where
  "analyzeFiles env files =
     (let classifiedFiles = map (\<lambda>file. (file, classify file)) files;
          categoryCount = tally classifiedFiles;
          needing = decideFolders categoryCount;
          local = map (suggest env needing) classifiedFiles;
          filesToAnalyze = filter (\<lambda>(file, category). \<not> isDir file \<and> category = cat_other)
                             classifiedFiles;
          merged =
            (if isOpencodeAvailable env \<and> length filesToAnalyze > 0 \<and> length filesToAnalyze \<le> 30
             then (case aiFiles env of Some answer \<Rightarrow> mergeAI local answer | None \<Rightarrow> local)
             else local)
      in \<lparr> results = merged, usedAI = isOpencodeAvailable env,
           categoriesNeedingFolders = needing \<rparr>)"

section \<open>Sample inputs\<close>

text \<open>A regular file of the scanned folder \<^verbatim>\<open>/d\<close>, as the scan step reports it.\<close>

definition scanned :: "jstring \<Rightarrow> jstring \<Rightarrow> fileInfo" where
  "scanned base ext =
     \<lparr> name = base @ ext, path = js ''/d/'' @ base @ ext, extension = ext, size_bytes = 1024,
       isDirectory = Some False, isSymlink = Some False,
       modifiedTime = Some (js ''2024-01-08T10:00:00.000Z'') \<rparr>"

definition sampleEnv :: analysisEnv where
  "sampleEnv =
     \<lparr> currentUser = js ''user'', parseDate = (\<lambda>t. LocalDate 2024 0 8), now = LocalDate 2025 5 1,
       isOpencodeAvailable = False, aiFiles = None \<rparr>"

section \<open>Duplicate detection\<close>

record dupInput =
  d_path :: jstring
  d_size :: nat
  d_name :: jstring

text \<open>A member of an emitted group: the input entry with its \<open>isKeep\<close> mark.\<close>

record dupMember =
  m_path :: jstring
  m_name :: jstring
  m_size :: nat
  isKeep :: bool

record duplicateGroup =
  hash :: jstring
  g_files :: "dupMember list"

text \<open>
  \<^verbatim>\<open>const group = map.get(key) || []; group.push(value); map.set(key, group)\<close> on a
  \<^verbatim>\<open>Map\<close>, which keeps its keys in the order of their first insertion.
\<close>

fun groupPush :: "('k \<times> 'v list) list \<Rightarrow> 'k \<Rightarrow> 'v \<Rightarrow> ('k \<times> 'v list) list" where
  "groupPush [] key v = [(key, [v])]"
| "groupPush ((k, vs) # rest) key v =
     (if k = key then (k, vs @ [v]) # rest else (k, vs) # groupPush rest key v)"

text \<open>Grouping by size; empty files are skipped.\<close>

definition sizeGroupsOf :: "dupInput list \<Rightarrow> (nat \<times> dupInput list) list" where
  "sizeGroupsOf files =
     fold (\<lambda>file sizeGroups.
             if d_size file = 0 then sizeGroups else groupPush sizeGroups (d_size file) file)
       files []"

text \<open>
  Hashing the files of one size group. \<open>calculateFileHash\<close> is the hash of the file at a
  path as the run finds it, \<open>None\<close> when the file cannot be read (the rejected promise is
  caught and the file skipped).
\<close>

definition hashGroup ::
  "(jstring \<Rightarrow> jstring option) \<Rightarrow> dupInput list \<Rightarrow> (jstring \<times> dupInput list) list
   \<Rightarrow> (jstring \<times> dupInput list) list" where
  "hashGroup calculateFileHash grp hashMap =
     fold (\<lambda>file hashMap.
             case calculateFileHash (d_path file) of
               Some h \<Rightarrow> groupPush hashMap h file
             | None \<Rightarrow> hashMap)
       grp hashMap"

definition hashMapOf ::
  "(jstring \<Rightarrow> jstring option) \<Rightarrow> (nat \<times> dupInput list) list \<Rightarrow> (jstring \<times> dupInput list) list" where
  "hashMapOf calculateFileHash sizeGroups =
     fold (\<lambda>(sz, grp) hashMap.
             if length grp > 1 then hashGroup calculateFileHash grp hashMap else hashMap)
       sizeGroups []"

text \<open>\<^verbatim>\<open>group.map((f, i) => ({ ...f, isKeep: i === 0 }))\<close>\<close>

definition markKeep :: "dupInput list \<Rightarrow> dupMember list" where
  "markKeep grp =
     map (\<lambda>(f, i). \<lparr> m_path = d_path f, m_name = d_name f, m_size = d_size f, isKeep = (i = 0) \<rparr>)
       (zip grp [0..<length grp])"

definition detectDuplicates ::
  "(jstring \<Rightarrow> jstring option) \<Rightarrow> dupInput list \<Rightarrow> duplicateGroup list" where
  "detectDuplicates calculateFileHash files =
     map (\<lambda>(h, grp). \<lparr> hash = h, g_files = markKeep grp \<rparr>)
       (filter (\<lambda>(h, grp). length grp > 1)
          (hashMapOf calculateFileHash (sizeGroupsOf files)))"

text \<open>The input entry a member was made from.\<close>

definition memberInput :: "dupMember \<Rightarrow> dupInput" where
  "memberInput m = \<lparr> d_path = m_path m, d_size = m_size m, d_name = m_name m \<rparr>"

text \<open>
  Three files of one size, two of them with the same content, and two empty files; and a
  hash that tells the contents apart.
\<close>

definition dupFile :: "string \<Rightarrow> nat \<Rightarrow> dupInput" where
  "dupFile n sz = \<lparr> d_path = js ''/d/'' @ js n, d_size = sz, d_name = js n \<rparr>"

definition sampleHash :: "jstring \<Rightarrow> jstring option" where
  "sampleHash p =
     (if p = js ''/d/a.bin'' \<or> p = js ''/d/b.bin'' then Some (js ''h1'')
      else if p = js ''/d/c.bin'' then Some (js ''h2'')
      else if p = js ''/d/e1.bin'' \<or> p = js ''/d/e2.bin'' then Some (js ''h0'')
      else None)"

definition sampleDups :: "dupInput list" where
  "sampleDups =
     [dupFile ''a.bin'' 5, dupFile ''e1.bin'' 0, dupFile ''c.bin'' 5, dupFile ''b.bin'' 5,
      dupFile ''e2.bin'' 0]"

text \<open>The values of a list, each once, in the order of their first appearance.\<close>

fun firstSeen :: "'a list \<Rightarrow> 'a list" where
  "firstSeen [] = []"
| "firstSeen (x # xs) = x # firstSeen (filter (\<lambda>y. y \<noteq> x) xs)"

text \<open>
  Four entries as a scan reports them: two files of 7 bytes with different contents, a
  symbolic link to the second of them, whose reported size is its own (5 bytes), and
  another file of 5 bytes. Hashing the link reads the file it points to.
\<close>

definition linkHash :: "jstring \<Rightarrow> jstring option" where
  "linkHash p =
     (if p = js ''/d/a.bin'' then Some (js ''ha'')
      else if p = js ''/d/z.bin'' \<or> p = js ''/d/m_link'' then Some (js ''hz'')
      else if p = js ''/d/n.txt'' then Some (js ''hn'')
      else None)"

definition linkInputs :: "dupInput list" where
  "linkInputs = [dupFile ''a.bin'' 7, dupFile ''m_link'' 5, dupFile ''n.txt'' 5, dupFile ''z.bin'' 7]"

section \<open>The plan of the desktop flow\<close>

text \<open>
  The items of a plan, \<^verbatim>\<open>FileItem\<close>, with the fields that the plan's decisions read (the
  identifier, type label, size, dates, hash and selection marks are left out).
\<close>

record fileItem =
  fi_name :: jstring
  fi_newName :: jstring
  fi_category :: jstring
  fi_path :: jstring
  fi_isDirectory :: bool
  fi_isSymlink :: "bool option"
  fi_isShortcut :: bool
  fi_needsRename :: bool
  fi_needsMove :: bool

text \<open>
  \<^verbatim>\<open>convertToFileItems\<close>: every scanned entry with the analysis result of its path; an
  absent or empty value counts as absent (\<^verbatim>\<open>||\<close>).
\<close>

definition convertToFileItems :: "fileInfo list \<Rightarrow> analysisResult list \<Rightarrow> fileItem list" where
  "convertToFileItems scannedFiles analysisResults =
     map (\<lambda>sf.
       let analysis = find (\<lambda>r. r_path r = path sf) analysisResults;
           category = (case analysis of
                         Some r \<Rightarrow> if r_category r \<noteq> [] then r_category r else cat_other
                       | None \<Rightarrow> cat_other);
           isShortcut = ((case analysis of Some r \<Rightarrow> isShortcut r | None \<Rightarrow> False)
                         \<or> category = cat_shortcut);
           needsRename = (case analysis of Some r \<Rightarrow> r_needsRename r | None \<Rightarrow> False);
           needsMove = (case analysis of Some r \<Rightarrow> r_needsMove r | None \<Rightarrow> False);
           newName = (if isDir sf \<or> \<not> needsRename then name sf
                      else (case analysis of
                              Some r \<Rightarrow> if suggestedName r \<noteq> [] then suggestedName r else name sf
                            | None \<Rightarrow> name sf))
       in \<lparr> fi_name = name sf, fi_newName = newName, fi_category = category,
            fi_path = path sf, fi_isDirectory = isDir sf, fi_isSymlink = isSymlink sf,
            fi_isShortcut = isShortcut, fi_needsRename = needsRename,
            fi_needsMove = needsMove \<rparr>)
       scannedFiles"

text \<open>
  \<^verbatim>\<open>Object.entries\<close> of an object with string keys: the keys that are array indices (the
  decimal numerals of the numbers below \<open>2^32 - 1\<close>, without leading zeros) come first, in
  ascending order, then all other keys in the order of their insertion.
\<close>

definition digitsValue :: "jstring \<Rightarrow> nat" where
  "digitsValue s = foldl (\<lambda>n c. 10 * n + (c - 48)) 0 s"

definition isArrayIndex :: "jstring \<Rightarrow> bool" where
  "isArrayIndex s \<longleftrightarrow>
     s \<noteq> [] \<and> list_all isDigit s \<and> (s = [48] \<or> hd s \<noteq> 48) \<and> digitsValue s < 4294967295"

definition objectEntries :: "(jstring \<times> 'v) list \<Rightarrow> (jstring \<times> 'v) list" where
  "objectEntries m =
     sort_key (\<lambda>(k, v). digitsValue k) (filter (\<lambda>(k, v). isArrayIndex k) m) @
     filter (\<lambda>(k, v). \<not> isArrayIndex k) m"

text \<open>
  \<^verbatim>\<open>generateOrganizePlan\<close>: the items by category, and the categories that get a folder.
  (The duplicate groups by hash, the statistics and the naming rules of the plan are left
  out.)
\<close>

record organizePlan =
  pl_files :: "fileItem list"
  pl_categories :: "(jstring \<times> fileItem list) list"
  pl_categoriesNeedingFolders :: "jstring list"

definition generateOrganizePlan :: "fileItem list \<Rightarrow> organizePlan" where
  "generateOrganizePlan files =
     (let categorizedFiles =
            fold (\<lambda>file categorizedFiles. groupPush categorizedFiles (fi_category file) file)
              files [];
          needing =
            map fst
              (filter (\<lambda>(cat, items). length items \<ge> 3 \<and>
                         cat \<noteq> cat_shortcut \<and> cat \<noteq> cat_other \<and> cat \<noteq> cat_folder)
                 (objectEntries categorizedFiles))
      in \<lparr> pl_files = files, pl_categories = categorizedFiles,
           pl_categoriesNeedingFolders = needing \<rparr>)"

text \<open>
  The desktop flow of the application: the scanned entries are analysed (name, path,
  extension, size and directory flag are passed on), converted, and the plan is generated
  from the items; the list of categories that the analysis returns is not used.
\<close>

definition forAnalysis :: "fileInfo \<Rightarrow> fileInfo" where
  "forAnalysis f =
     \<lparr> name = name f, path = path f, extension = extension f, size_bytes = size_bytes f,
       isDirectory = Some (isDir f), isSymlink = None, modifiedTime = None \<rparr>"

definition desktopPlan :: "analysisEnv \<Rightarrow> fileInfo list \<Rightarrow> organizePlan" where
  "desktopPlan env scannedFiles =
     generateOrganizePlan
       (convertToFileItems scannedFiles
          (results (analyzeFiles env (map forAnalysis scannedFiles))))"

text \<open>
  A directory of the scanned folder; a folder with two images and the directory
  \<^verbatim>\<open>Photos\<close>; and four files, the last of which the classifier cannot place, with an answer
  of the external tool that calls it an image.
\<close>

definition scannedDir :: "jstring \<Rightarrow> fileInfo" where
  "scannedDir n =
     \<lparr> name = n, path = js ''/d/'' @ n, extension = [], size_bytes = 4096,
       isDirectory = Some True, isSymlink = Some False,
       modifiedTime = Some (js ''2024-01-08T10:00:00.000Z'') \<rparr>"

definition photoFolder :: "fileInfo list" where
  "photoFolder =
     [scanned (js ''a'') (js ''.jpg''), scanned (js ''b'') (js ''.jpg''), scannedDir (js ''Photos'')]"

definition fourFiles :: "fileInfo list" where
  "fourFiles =
     [scanned (js ''a'') (js ''.jpg''), scanned (js ''b'') (js ''.jpg''),
      scanned (js ''c'') (js ''.jpg''), scanned (js ''x'') (js ''.xyz'')]"

definition aiEnv :: analysisEnv where
  "aiEnv = sampleEnv \<lparr> isOpencodeAvailable := True,
                       aiFiles := Some [(js ''x.xyz'', cat_image, js ''photo'')] \<rparr>"

section \<open>File system\<close>

text \<open>
  A path is the list of its segments below the root, as \<^verbatim>\<open>path.join\<close> leaves it: absolute
  and normalised. The file system is a finite table from paths to nodes; a regular file
  carries its bytes. Symbolic and hard links, permissions and case-insensitive names are
  outside the model, so an operation fails only for the shape of the tree.
\<close>

type_synonym path = "jstring list"

datatype node = File "nat list" | Dir

type_synonym filesystem = "(path \<times> node) list"

datatype fserror = ENOENT | EEXIST | ENOTDIR | EISDIR | ENOTEMPTY | EINVAL | EBUSY

definition existsSync :: "filesystem \<Rightarrow> path \<Rightarrow> bool" where
  "existsSync fs p = (map_of fs p \<noteq> None)"

definition remove :: "filesystem \<Rightarrow> path \<Rightarrow> filesystem" where
  "remove fs p = filter (\<lambda>(k, n). k \<noteq> p) fs"

definition put :: "filesystem \<Rightarrow> path \<Rightarrow> node \<Rightarrow> filesystem" where
  "put fs p n = (p, n) # remove fs p"

definition isFile :: "node option \<Rightarrow> bool" where
  "isFile n = (case n of Some (File c) \<Rightarrow> True | _ \<Rightarrow> False)"

definition parentIsDir :: "filesystem \<Rightarrow> path \<Rightarrow> bool" where
  "parentIsDir fs p = (p \<noteq> [] \<and> map_of fs (butlast p) = Some Dir)"

definition hasChildren :: "filesystem \<Rightarrow> path \<Rightarrow> bool" where
  "hasChildren fs p = list_ex (\<lambda>(k, n). strict_prefix p k) fs"

text \<open>
  \<^verbatim>\<open>fs.promises.mkdir(p, { recursive: true })\<close>: fails when \<open>p\<close> or one of its ancestors is a
  regular file; otherwise every missing directory on the way to \<open>p\<close> is created, and
  nothing happens when \<open>p\<close> is already a directory.
\<close>

definition mkdirRecursive :: "filesystem \<Rightarrow> path \<Rightarrow> fserror + filesystem" where
  "mkdirRecursive fs p =
     (if isFile (map_of fs p) then Inl EEXIST
      else if list_ex (\<lambda>q. isFile (map_of fs q)) (prefixes p) then Inl ENOTDIR
      else Inr (map (\<lambda>q. (q, Dir)) (filter (\<lambda>q. map_of fs q = None) (prefixes p)) @ fs))"

text \<open>
  Moving the directory \<open>a\<close> to \<open>b\<close> takes everything below \<open>a\<close> along.
\<close>

definition moveTree :: "filesystem \<Rightarrow> path \<Rightarrow> path \<Rightarrow> filesystem" where
  "moveTree fs a b =
     map (\<lambda>(k, n). (b @ drop (length a) k, n)) (filter (\<lambda>(k, n). prefix a k) fs) @
     filter (\<lambda>(k, n). \<not> prefix a k \<and> \<not> prefix b k) fs"

text \<open>
  \<^verbatim>\<open>fs.promises.rename(a, b)\<close>, as \<^verbatim>\<open>rename(2)\<close>: the source has to exist and the parent of
  the target has to be a directory; a regular file replaces a regular file at the target
  without any notice; a directory replaces an empty directory only, and cannot be moved
  below itself.
\<close>

definition rename :: "filesystem \<Rightarrow> path \<Rightarrow> path \<Rightarrow> fserror + filesystem" where
  "rename fs a b =
     (case map_of fs a of
        None \<Rightarrow> Inl ENOENT
      | Some n \<Rightarrow>
          if a = b then Inr fs
          else if a = [] \<or> b = [] then Inl EBUSY
          else if \<not> parentIsDir fs b then Inl ENOENT
          else (case n of
                  File c \<Rightarrow>
                    (case map_of fs b of
                       Some Dir \<Rightarrow> Inl EISDIR
                     | _ \<Rightarrow> Inr (put (remove fs a) b (File c)))
                | Dir \<Rightarrow>
                    if prefix a b then Inl EINVAL
                    else (case map_of fs b of
                            Some (File c) \<Rightarrow> Inl ENOTDIR
                          | Some Dir \<Rightarrow>
                              if hasChildren fs b then Inl ENOTEMPTY else Inr (moveTree fs a b)
                          | None \<Rightarrow> Inr (moveTree fs a b))))"

text \<open>
  \<^verbatim>\<open>fs.promises.copyFile(a, b)\<close>: copies the bytes of the regular file \<open>a\<close>, replacing a
  regular file at \<open>b\<close>; copying a file onto itself changes nothing.
\<close>

definition copyFile :: "filesystem \<Rightarrow> path \<Rightarrow> path \<Rightarrow> fserror + filesystem" where
  "copyFile fs a b =
     (case map_of fs a of
        None \<Rightarrow> Inl ENOENT
      | Some Dir \<Rightarrow> Inl EISDIR
      | Some (File c) \<Rightarrow>
          if a = b then Inr fs
          else if \<not> parentIsDir fs b then Inl ENOENT
          else (case map_of fs b of
                  Some Dir \<Rightarrow> Inl EISDIR
                | _ \<Rightarrow> Inr (put fs b (File c))))"

definition unlink :: "filesystem \<Rightarrow> path \<Rightarrow> fserror + filesystem" where
  "unlink fs p =
     (case map_of fs p of
        None \<Rightarrow> Inl ENOENT
      | Some Dir \<Rightarrow> Inl EISDIR
      | Some (File c) \<Rightarrow> Inr (remove fs p))"

definition rmdir :: "filesystem \<Rightarrow> path \<Rightarrow> fserror + filesystem" where
  "rmdir fs p =
     (case map_of fs p of
        None \<Rightarrow> Inl ENOENT
      | Some (File c) \<Rightarrow> Inl ENOTDIR
      | Some Dir \<Rightarrow>
          if hasChildren fs p then Inl ENOTEMPTY
          else if p = [] then Inl EBUSY
          else Inr (remove fs p))"

section \<open>Node's path module on paths\<close>

text \<open>Splitting a string at the separator \<^verbatim>\<open>/\<close> (code unit 47).\<close>

fun splitSlash :: "jstring \<Rightarrow> jstring list" where
  "splitSlash [] = [[]]"
| "splitSlash (c # cs) =
     (if c = 47 then [] # splitSlash cs
      else (case splitSlash cs of [] \<Rightarrow> [[c]] | seg # segs \<Rightarrow> (c # seg) # segs))"

text \<open>
  \<^verbatim>\<open>path.join(dir, s)\<close> for a normalised absolute \<open>dir\<close>: the segments of \<open>s\<close> are appended,
  an empty segment and \<^verbatim>\<open>.\<close> are dropped, \<^verbatim>\<open>..\<close> goes one level up and stays at the root.
\<close>

definition joinStep :: "path \<Rightarrow> jstring \<Rightarrow> path" where
  "joinStep dir seg =
     (if seg = [] \<or> seg = [46] then dir
      else if seg = [46, 46] then butlast dir
      else dir @ [seg])"

definition joinPath :: "path \<Rightarrow> jstring \<Rightarrow> path" where
  "joinPath dir s = foldl joinStep dir (splitSlash s)"

definition dirname :: "path \<Rightarrow> path" where
  "dirname p = butlast p"

text \<open>\<^verbatim>\<open>path.basename(p)\<close>: the last segment, empty for the root.\<close>

definition basenameOf :: "path \<Rightarrow> jstring" where
  "basenameOf p = (if p = [] then [] else last p)"

section \<open>Execution engine\<close>

datatype optype = Move | Rename | Delete | Mkdir

record operation =
  op_type :: optype
  op_from :: path
  op_to :: "path option"
  backupPath :: "path option"

record undoInfo =
  timestamp :: nat
  operations :: "operation list"

record planFile =
  p_path :: path
  p_category :: jstring
  newName :: jstring
  needsMove :: bool
  needsRename :: bool

record plan =
  folderPath :: path
  categories :: "jstring list"
  p_files :: "planFile list"
  duplicatesToDelete :: "path list"

text \<open>
  What the handler takes from the platform: the directory for temporary files, and the
  clock, as the value of the successive calls of \<^verbatim>\<open>Date.now()\<close> in one run (call 0 names
  the backup directory, call \<open>i + 1\<close> the backup of the duplicate at index \<open>i\<close>, and the last
  call stamps the undo record).
\<close>

record execEnv =
  tempDir :: path
  dateNow :: "nat \<Rightarrow> nat"

datatype execResult =
    ExecSuccess nat nat nat nat
  | ExecFailure fserror

definition backupDirOf :: "execEnv \<Rightarrow> path" where
  "backupDirOf env = joinPath (tempDir env) (js ''zhili-backup-'' @ natToString (dateNow env 0))"

text \<open>
  Step 1: the category directories. A failing \<^verbatim>\<open>mkdir\<close> is not caught inside the loop: it
  ends the run. \<open>createdDirs\<close> is a set of paths.
\<close>

fun createCategoryDirs ::
  "path \<Rightarrow> jstring list \<Rightarrow> filesystem \<Rightarrow> operation list \<Rightarrow> path list
   \<Rightarrow> fserror \<times> filesystem + filesystem \<times> operation list \<times> path list" where
  "createCategoryDirs folder [] fs ops createdDirs = Inr (fs, ops, createdDirs)"
| "createCategoryDirs folder (category # rest) fs ops createdDirs =
     (let categoryPath = joinPath folder category in
      if \<not> existsSync fs categoryPath then
        (case mkdirRecursive fs categoryPath of
           Inl e \<Rightarrow> Inl (e, fs)
         | Inr fs' \<Rightarrow>
             createCategoryDirs folder rest fs'
               (ops @ [\<lparr> op_type = Mkdir, op_from = categoryPath, op_to = None,
                         backupPath = None \<rparr>])
               (List.insert categoryPath createdDirs))
      else createCategoryDirs folder rest fs ops createdDirs)"

text \<open>Step 2: the target of a planned file.\<close>

definition targetPathOf :: "path \<Rightarrow> planFile \<Rightarrow> path" where
  "targetPathOf folder file =
     (let currentPath = p_path file in
      if needsMove file then
        joinPath (joinPath folder (p_category file))
          (if needsRename file then newName file else basenameOf currentPath)
      else if needsRename file then joinPath (dirname currentPath) (newName file)
      else currentPath)"

text \<open>
  The name tried at \<open>counter\<close>: \<^verbatim>\<open>path.join(path.dirname(targetPath),
  `${base}_${counter}${ext}`)\<close>. The name is one segment, made of a segment of
  \<open>targetPath\<close>, so joining it appends it.
\<close>

definition candidate :: "path \<Rightarrow> nat \<Rightarrow> path" where
  "candidate targetPath counter =
     (let ext = extnameSeg (basenameOf targetPath);
          base = basename (basenameOf targetPath) ext
      in dirname targetPath @ [base @ js ''_'' @ natToString counter @ ext])"

text \<open>
  \<^verbatim>\<open>while (fs.existsSync(finalPath)) { finalPath = ...; counter++ }\<close>
\<close>

function resolveConflict :: "filesystem \<Rightarrow> path \<Rightarrow> path \<Rightarrow> nat \<Rightarrow> path" where
  "resolveConflict fs targetPath finalPath counter =
     (if existsSync fs finalPath
      then resolveConflict fs targetPath (candidate targetPath counter) (counter + 1)
      else finalPath)"
  by pat_completeness auto

text \<open>
  One planned file: the move or rename is logged when it succeeds; a failure is caught
  and the file left where it is.
\<close>

definition processFile ::
  "path \<Rightarrow> planFile \<Rightarrow> filesystem \<times> operation list \<Rightarrow> filesystem \<times> operation list" where
  "processFile folder file st =
     (let fs = fst st; ops = snd st;
          currentPath = p_path file;
          targetPath = targetPathOf folder file
      in if targetPath \<noteq> currentPath then
           (let finalPath = resolveConflict fs targetPath targetPath 1 in
            case rename fs currentPath finalPath of
              Inr fs' \<Rightarrow>
                (fs', ops @ [\<lparr> op_type = (if needsMove file then Move else Rename),
                               op_from = currentPath, op_to = Some finalPath,
                               backupPath = None \<rparr>])
            | Inl e \<Rightarrow> (fs, ops))
         else (fs, ops))"

definition processFiles ::
  "path \<Rightarrow> planFile list \<Rightarrow> filesystem \<times> operation list \<Rightarrow> filesystem \<times> operation list" where
  "processFiles folder files st = fold (processFile folder) files st"

text \<open>
  Step 3, one duplicate: copy to the backup, then remove the original, then log. The two
  calls are in one \<^verbatim>\<open>try\<close> block: when the copy fails nothing else is done, and when the
  removal fails the copy stays and nothing is logged.
\<close>

definition backupPathOf :: "execEnv \<Rightarrow> path \<Rightarrow> nat \<Rightarrow> path" where
  "backupPathOf env duplicatePath i =
     joinPath (backupDirOf env)
       (basenameOf duplicatePath @ js ''_'' @ natToString (dateNow env (i + 1)))"

definition processDuplicate ::
  "path \<Rightarrow> path \<Rightarrow> filesystem \<times> operation list \<Rightarrow> filesystem \<times> operation list" where
  "processDuplicate duplicatePath backup st =
     (let fs = fst st; ops = snd st in
      case copyFile fs duplicatePath backup of
        Inl e \<Rightarrow> (fs, ops)
      | Inr fs1 \<Rightarrow>
          (case unlink fs1 duplicatePath of
             Inl e \<Rightarrow> (fs1, ops)
           | Inr fs2 \<Rightarrow>
               (fs2, ops @ [\<lparr> op_type = Delete, op_from = duplicatePath, op_to = None,
                              backupPath = Some backup \<rparr>])))"

fun processDuplicates ::
  "execEnv \<Rightarrow> path list \<Rightarrow> nat \<Rightarrow> filesystem \<times> operation list \<Rightarrow> filesystem \<times> operation list" where
  "processDuplicates env [] i st = st"
| "processDuplicates env (duplicatePath # rest) i st =
     processDuplicates env rest (i + 1)
       (processDuplicate duplicatePath (backupPathOf env duplicatePath i) st)"

definition countType :: "optype \<Rightarrow> operation list \<Rightarrow> nat" where
  "countType t ops = length (filter (\<lambda>o'. op_type o' = t) ops)"

text \<open>
  The handler \<^verbatim>\<open>fs:executeOrganize\<close> on the file system and the undo stack. Only the two
  uncaught \<^verbatim>\<open>mkdir\<close> calls can end it with a failure; the stack is pushed at the very end.
\<close>

definition executeOrganize ::
  "execEnv \<Rightarrow> plan \<Rightarrow> filesystem \<times> undoInfo list \<Rightarrow> execResult \<times> filesystem \<times> undoInfo list" where
  "executeOrganize env pl st =
     (let fs = fst st; undoStack = snd st;
          backupDir = backupDirOf env
      in case mkdirRecursive fs backupDir of
           Inl e \<Rightarrow> (ExecFailure e, fs, undoStack)
         | Inr fs0 \<Rightarrow>
             (case createCategoryDirs (folderPath pl) (categories pl) fs0 [] [] of
                Inl (e, fs') \<Rightarrow> (ExecFailure e, fs', undoStack)
              | Inr (fs1, ops1, createdDirs) \<Rightarrow>
                  (let st2 = processFiles (folderPath pl) (p_files pl) (fs1, ops1);
                       st3 = processDuplicates env (duplicatesToDelete pl) 0 st2;
                       ops = snd st3
                   in (ExecSuccess (countType Move ops) (countType Rename ops)
                         (countType Delete ops) (length createdDirs),
                       fst st3,
                       undoStack @
                         [\<lparr> timestamp = dateNow env (length (duplicatesToDelete pl) + 1),
                            operations = ops \<rparr>]))))"

section \<open>Undo engine\<close>

datatype undoResult =
    UndoSuccess nat
  | UndoFailure jstring

text \<open>The message of the empty stack: U+6CA1 U+6709 U+53EF U+64A4 U+9500 U+7684 U+64CD U+4F5C.\<close>

definition nothingToUndo :: jstring where
  "nothingToUndo = [0x6CA1, 0x6709, 0x53EF, 0x64A4, 0x9500, 0x7684, 0x64CD, 0x4F5C]"

text \<open>
  Undoing one operation; every failure is caught. A directory that cannot be removed is
  skipped, and removing one does not count as a restored file.
\<close>

definition undoOperation :: "operation \<Rightarrow> filesystem \<times> nat \<Rightarrow> filesystem \<times> nat" where
  "undoOperation op' st =
     (let fs = fst st; restored = snd st in
      if (op_type op' = Move \<or> op_type op' = Rename) \<and> op_to op' \<noteq> None then
        (case rename fs (the (op_to op')) (op_from op') of
           Inr fs' \<Rightarrow> (fs', restored + 1)
         | Inl e \<Rightarrow> (fs, restored))
      else if op_type op' = Delete \<and> backupPath op' \<noteq> None then
        (case copyFile fs (the (backupPath op')) (op_from op') of
           Inl e \<Rightarrow> (fs, restored)
         | Inr fs1 \<Rightarrow>
             (case unlink fs1 (the (backupPath op')) of
                Inl e \<Rightarrow> (fs1, restored)
              | Inr fs2 \<Rightarrow> (fs2, restored + 1)))
      else if op_type op' = Mkdir then
        (case rmdir fs (op_from op') of
           Inr fs' \<Rightarrow> (fs', restored)
         | Inl e \<Rightarrow> (fs, restored))
      else (fs, restored))"

text \<open>\<^verbatim>\<open>for (const op of lastUndo.operations.reverse())\<close>\<close>

definition undoOperations :: "operation list \<Rightarrow> filesystem \<times> nat \<Rightarrow> filesystem \<times> nat" where
  "undoOperations ops st = fold undoOperation (rev ops) st"

text \<open>The handler \<^verbatim>\<open>fs:undoOrganize\<close>: \<^verbatim>\<open>undoStack.pop()\<close> takes the last record.\<close>

definition undoOrganize ::
  "filesystem \<times> undoInfo list \<Rightarrow> undoResult \<times> filesystem \<times> undoInfo list" where
  "undoOrganize st =
     (let fs = fst st; undoStack = snd st in
      if undoStack = [] then (UndoFailure nothingToUndo, fs, undoStack)
      else
        (let lastUndo = last undoStack;
             st' = undoOperations (operations lastUndo) (fs, 0)
         in (UndoSuccess (snd st'), fst st', butlast undoStack)))"

section \<open>The file service\<close>

text \<open>
  \<^verbatim>\<open>FileService.undoOrganize\<close> and \<^verbatim>\<open>rollbackOperations\<close> of the second engine in the
  repository, which keeps a history of operations with identifiers.
\<close>

datatype fileOpType = FMove | FRename | FDelete | FCreateDir

record fileOperation =
  fo_type :: fileOpType
  sourcePath :: path
  targetPath :: "path option"

record operationHistory =
  h_id :: jstring
  h_operations :: "fileOperation list"

definition rollbackOperation :: "fileOperation \<Rightarrow> filesystem \<Rightarrow> filesystem" where
  "rollbackOperation op' fs =
     (if fo_type op' = FMove \<or> fo_type op' = FDelete then
        (case targetPath op' of
           Some t \<Rightarrow> (case rename fs t (sourcePath op') of Inr fs' \<Rightarrow> fs' | Inl e \<Rightarrow> fs)
         | None \<Rightarrow> fs)
      else if fo_type op' = FCreateDir then
        (case rmdir fs (sourcePath op') of Inr fs' \<Rightarrow> fs' | Inl e \<Rightarrow> fs)
      else fs)"

definition rollbackOperations :: "fileOperation list \<Rightarrow> filesystem \<Rightarrow> filesystem" where
  "rollbackOperations ops fs = fold rollbackOperation (rev ops) fs"

text \<open>An identifier is used when it is given and not empty; else the last entry is popped.\<close>

fun removeFirst :: "('a \<Rightarrow> bool) \<Rightarrow> 'a list \<Rightarrow> 'a list" where
  "removeFirst P [] = []"
| "removeFirst P (x # xs) = (if P x then xs else x # removeFirst P xs)"

definition serviceUndoOrganize ::
  "jstring option \<Rightarrow> filesystem \<times> operationHistory list
   \<Rightarrow> (unit + jstring) \<times> filesystem \<times> operationHistory list" where
  "serviceUndoOrganize historyId st =
     (let fs = fst st; history = snd st;
          byId = (historyId \<noteq> None \<and> historyId \<noteq> Some []);
          found = (if byId then find (\<lambda>h. h_id h = the historyId) history
                   else if history = [] then None else Some (last history));
          history1 = (if byId then history else butlast history)
      in case found of
           None \<Rightarrow> (Inr nothingToUndo, fs, history1)
         | Some h \<Rightarrow>
             (Inl (), rollbackOperations (h_operations h) fs,
              if byId then removeFirst (\<lambda>h'. h_id h' = the historyId) history1 else history1))"

section \<open>Well-formed trees\<close>

text \<open>
  A tree: the root is not a regular file, and everything but the root lies in a directory.
\<close>

definition wellFormed :: "filesystem \<Rightarrow> bool" where
  "wellFormed fs \<longleftrightarrow>
     \<not> isFile (map_of fs []) \<and>
     list_all (\<lambda>(p, n). p = [] \<or> map_of fs (butlast p) = Some Dir) fs"

text \<open>
  A name that can be a segment of a path: not empty, without the separator, and neither
  \<^verbatim>\<open>.\<close> nor \<^verbatim>\<open>..\<close>.
\<close>

definition validSegment :: "jstring \<Rightarrow> bool" where
  "validSegment s \<longleftrightarrow> s \<noteq> [] \<and> 47 \<notin> set s \<and> s \<noteq> [46] \<and> s \<noteq> [46, 46]"

text \<open>The backup paths of a run, in the order of \<open>duplicatesToDelete\<close>.\<close>

definition backupPathsOf :: "execEnv \<Rightarrow> path list \<Rightarrow> nat \<Rightarrow> path list" where
  "backupPathsOf env duplicates i =
     map (\<lambda>(d, k). backupPathOf env d k) (zip duplicates [i..<i + length duplicates])"

text \<open>
  A folder \<^verbatim>\<open>/d\<close> with two captures and a duplicate of the first, next to \<^verbatim>\<open>/tmp\<close>; and a
  plan that moves both captures into the category folder \<^verbatim>\<open>img\<close> under one new name and
  removes the duplicate.
\<close>

definition sampleTree :: filesystem where
  "sampleTree =
     [([], Dir), ([js ''tmp''], Dir), ([js ''d''], Dir),
      ([js ''d'', js ''IMG_1.jpg''], File [1]),
      ([js ''d'', js ''IMG_2.jpg''], File [2]),
      ([js ''d'', js ''copy.jpg''], File [1])]"

definition capture :: "string \<Rightarrow> planFile" where
  "capture n =
     \<lparr> p_path = [js ''d'', js n], p_category = js ''img'', newName = js ''shot.jpg'',
       needsMove = True, needsRename = True \<rparr>"

definition samplePlan :: plan where
  "samplePlan =
     \<lparr> folderPath = [js ''d''], categories = [js ''img''],
       p_files = [capture ''IMG_1.jpg'', capture ''IMG_2.jpg''],
       duplicatesToDelete = [[js ''d'', js ''copy.jpg'']] \<rparr>"

definition sampleExecEnv :: execEnv where
  "sampleExecEnv = \<lparr> tempDir = [js ''tmp''], dateNow = (\<lambda>i. 100 + i) \<rparr>"

text \<open>The sample tree with the category folder already there.\<close>

definition sampleTreeWithFolder :: filesystem where
  "sampleTreeWithFolder = ([js ''d'', js ''img''], Dir) # sampleTree"

text \<open>The sample tree with the backup directory of the sample run already there.\<close>

definition sampleTreeWithBackup :: filesystem where
  "sampleTreeWithBackup = ([js ''tmp'', js ''zhili-backup-100''], Dir) # sampleTree"

text \<open>The log of the sample run, and the tree it leaves.\<close>

definition sampleLog :: "operation list" where
  "sampleLog =
     [\<lparr> op_type = Mkdir, op_from = [js ''d'', js ''img''], op_to = None, backupPath = None \<rparr>,
      \<lparr> op_type = Move, op_from = [js ''d'', js ''IMG_1.jpg''],
        op_to = Some [js ''d'', js ''img'', js ''shot.jpg''], backupPath = None \<rparr>,
      \<lparr> op_type = Move, op_from = [js ''d'', js ''IMG_2.jpg''],
        op_to = Some [js ''d'', js ''img'', js ''shot_1.jpg''], backupPath = None \<rparr>,
      \<lparr> op_type = Delete, op_from = [js ''d'', js ''copy.jpg''], op_to = None,
        backupPath = Some [js ''tmp'', js ''zhili-backup-100'', js ''copy.jpg_101''] \<rparr>]"

definition sampleAfter :: filesystem where
  "sampleAfter =
     [([js ''tmp'', js ''zhili-backup-100'', js ''copy.jpg_101''], File [1]),
      ([js ''d'', js ''img'', js ''shot_1.jpg''], File [2]),
      ([js ''d'', js ''img'', js ''shot.jpg''], File [1]),
      ([js ''d'', js ''img''], Dir),
      ([js ''tmp'', js ''zhili-backup-100''], Dir),
      ([], Dir), ([js ''tmp''], Dir), ([js ''d''], Dir)]"

text \<open>The tree after undoing the sample run.\<close>

definition sampleUndone :: filesystem where
  "sampleUndone =
     [([js ''d'', js ''IMG_1.jpg''], File [1]),
      ([js ''d'', js ''IMG_2.jpg''], File [2]),
      ([js ''d'', js ''copy.jpg''], File [1]),
      ([js ''tmp'', js ''zhili-backup-100''], Dir),
      ([], Dir), ([js ''tmp''], Dir), ([js ''d''], Dir)]"

chapter \<open>Properties\<close>

section \<open>Strings and rule tables\<close>

lemma lowerTable_tail_bounds:
  "\<forall>(lo, hi, step, lower) \<in> set (tl lowerTable).
      0xC0 \<le> lo \<and> (hi < 0x2E80 \<or> 0xA640 \<le> lo)"
  by (simp add: lowerTable_def)

lemma lowerTable_head: "lowerTable = (0x41, 0x5A, 1, 0x61) # tl lowerTable"
  by (simp add: lowerTable_def)

lemma lowerPoint_plain:
  assumes "plain c"
  shows "lowerPoint c = [asciiLower c]"
proof -
  let ?P = "\<lambda>(lo, hi, step, lower). lo \<le> c \<and> c \<le> hi \<and> (c - lo) mod step = 0"
  have n: "find ?P (tl lowerTable) = None"
    unfolding find_None_iff using lowerTable_tail_bounds assms by (fastforce simp: plain_def)
  have c: "c \<noteq> 0x130" using assms by (auto simp: plain_def)
  have "find ?P lowerTable = (if 65 \<le> c \<and> c \<le> 90 then Some (0x41, 0x5A, 1, 0x61) else None)"
    by (subst lowerTable_head) (use n in simp)
  thus ?thesis using c by (auto simp: lowerPoint_def asciiLower_def)
qed

lemma stringToCodePoints_bmp:
  "\<forall>c \<in> set s. c < 0xD800 \<Longrightarrow> stringToCodePoints s = s"
  by (induction s rule: stringToCodePoints.induct) auto

lemma lowerPoints_no_sigma:
  "0x3A3 \<notin> set cs \<Longrightarrow> lowerPoints seen cs = concat (map lowerPoint cs)"
  by (induction cs arbitrary: seen) auto

text \<open>On plain strings \<^verbatim>\<open>toLowerCase\<close> is the ASCII lower-casing, unit by unit.\<close>

lemma toLowerCase_plain:
  assumes "list_all plain s"
  shows "toLowerCase s = map asciiLower s"
proof -
  from assms have p: "\<forall>c \<in> set s. plain c" by (simp add: list_all_iff)
  hence b: "\<forall>c \<in> set s. c < 0xD800" and n: "0x3A3 \<notin> set s" by (auto simp: plain_def)
  have "lowerPoints [] (stringToCodePoints s) = concat (map lowerPoint s)"
    by (simp add: stringToCodePoints_bmp[OF b] lowerPoints_no_sigma[OF n])
  also have "\<dots> = map asciiLower s"
    using p by (induction s) (simp_all add: lowerPoint_plain)
  finally have l: "lowerPoints [] (stringToCodePoints s) = map asciiLower s" .
  have "\<forall>c \<in> set s. codePointToUnits (asciiLower c) = [asciiLower c]"
    using p by (auto simp: codePointToUnits_def asciiLower_def plain_def)
  hence "concat (map codePointToUnits (map asciiLower s)) = map asciiLower s"
    by (induction s) simp_all
  thus ?thesis by (simp add: toLowerCase_def l)
qed

lemmas lower_eval = toLowerCase_plain plain_def asciiLower_def

lemma jsIncludes_sublist: "jsIncludes s k \<longleftrightarrow> sublist k s"
  by (induction s) (auto simp: sublist_Cons_right)

lemma matchRules_first:
  "i < length rules \<Longrightarrow> ruleMatches (fst (rules ! i)) n \<Longrightarrow>
   \<forall>j<i. \<not> ruleMatches (fst (rules ! j)) n \<Longrightarrow>
   matchRules rules n = Some (snd (rules ! i))"
proof (induction rules arbitrary: i)
  case Nil
  then show ?case by simp
next
  case (Cons r rules)
  obtain kws category where r: "r = (kws, category)" by (cases r)
  show ?case
  proof (cases i)
    case 0
    with Cons.prems r show ?thesis by simp
  next
    case (Suc i')
    from Cons.prems(3) Suc have "\<not> ruleMatches (fst ((r # rules) ! 0)) n" by blast
    hence no: "\<not> ruleMatches kws n" using r by simp
    have "\<forall>j<i'. \<not> ruleMatches (fst (rules ! j)) n"
    proof (intro allI impI)
      fix j assume "j < i'"
      hence "Suc j < i" using Suc by simp
      with Cons.prems(3) have "\<not> ruleMatches (fst ((r # rules) ! Suc j)) n" by blast
      thus "\<not> ruleMatches (fst (rules ! j)) n" by simp
    qed
    with Cons.IH[of i'] Cons.prems Suc have "matchRules rules n = Some (snd (rules ! i'))" by simp
    with no r Suc show ?thesis by simp
  qed
qed

section \<open>Classifier\<close>

lemmas classify_eval =
  classifyFile_def js_def extname_def lastSegment_def extnameSeg_def basename_def
  lower_eval isShortcutOrLink_def shortcutExtensions_def keywordRules_def
  ruleMatches_def Let_def

text \<open>
  Lower-casing is not the ASCII one: an extension with an accented capital is not cut off
  the base name, because the name does not end with the lower-cased extension, so a
  keyword in the extension is found.
\<close>

lemma lowerPoint_E_acute: "lowerPoint 0xC9 = [0xE9]"
  by (simp add: lowerPoint_def lowerTable_def)

lemma toLowerCase_accented:
  "toLowerCase (js ''.'' @ [0xC9] @ js ''invoice'') = js ''.'' @ [0xE9] @ js ''invoice''"
  "toLowerCase (js ''contract.'' @ [0xC9] @ js ''invoice'') = js ''contract.'' @ [0xE9] @ js ''invoice''"
  by (simp_all add: toLowerCase_def lowerPoint_E_acute lowerPoint_plain plain_def asciiLower_def
        codePointToUnits_def js_def)

lemma classify_accented_extension:
  "classifyFile (js ''contract.'' @ [0xC9] @ js ''invoice'') False False = cat_invoice"
proof -
  let ?n = "js ''contract.'' @ [0xC9] @ js ''invoice''"
  have e: "extname ?n = js ''.'' @ [0xC9] @ js ''invoice''" by (simp add: js_def extname_def lastSegment_def extnameSeg_def basename_def Let_def)
  have b: "basename ?n (js ''.'' @ [0xE9] @ js ''invoice'') = ?n" by (simp add: js_def extname_def lastSegment_def extnameSeg_def basename_def Let_def)
  have s: "\<not> isShortcutOrLink ?n"
    unfolding isShortcutOrLink_def e toLowerCase_accented
    by (simp add: shortcutExtensions_def js_def)
  show ?thesis
    unfolding classifyFile_def e toLowerCase_accented b Let_def
    using s by (simp add: keywordRules_def ruleMatches_def lower_eval js_def)
qed

text \<open>
  C7. For a file that is neither a symbolic link nor a directory and whose extension is not
  a shortcut extension: when a keyword of some keyword rule occurs in the lower-cased base
  name, the file gets the category of the first such rule, whatever the extension table
  says about its extension. The file named U+5408 U+540C - U+8D44 U+6599 .jpg is
  classified as contract (U+5408 U+540C), although the table maps .jpg to image.
\<close>

theorem keyword_overrides_extension:
  "(\<forall>fileName i.
      \<not> isShortcutOrLink fileName \<and> i < length keywordRules \<and>
      ruleMatches (fst (keywordRules ! i))
        (toLowerCase (basename fileName (toLowerCase (extname fileName)))) \<and>
      (\<forall>j<i. \<not> ruleMatches (fst (keywordRules ! j))
        (toLowerCase (basename fileName (toLowerCase (extname fileName)))))
      \<longrightarrow> classifyFile fileName False False = snd (keywordRules ! i)) \<and>
   classifyFile ([0x5408, 0x540C, 0x2D, 0x8D44, 0x6599] @ js ''.jpg'') False False = cat_contract \<and>
   map_of extCategoryMap
     (toLowerCase (extname ([0x5408, 0x540C, 0x2D, 0x8D44, 0x6599] @ js ''.jpg''))) = Some cat_image"
proof (intro conjI allI impI)
  fix fileName i
  assume h: "\<not> isShortcutOrLink fileName \<and> i < length keywordRules \<and>
      ruleMatches (fst (keywordRules ! i))
        (toLowerCase (basename fileName (toLowerCase (extname fileName)))) \<and>
      (\<forall>j<i. \<not> ruleMatches (fst (keywordRules ! j))
        (toLowerCase (basename fileName (toLowerCase (extname fileName)))))"
  hence "matchRules keywordRules
           (toLowerCase (basename fileName (toLowerCase (extname fileName))))
         = Some (snd (keywordRules ! i))"
    by (intro matchRules_first) auto
  with h show "classifyFile fileName False False = snd (keywordRules ! i)"
    by (simp add: classifyFile_def Let_def)
next
  show "classifyFile ([0x5408, 0x540C, 0x2D, 0x8D44, 0x6599] @ js ''.jpg'') False False
        = cat_contract"
    by (simp add: classify_eval)
next
  show "map_of extCategoryMap
     (toLowerCase (extname ([0x5408, 0x540C, 0x2D, 0x8D44, 0x6599] @ js ''.jpg''))) = Some cat_image"
    by (simp add: classify_eval extCategoryMap_def)
qed

theorem keyword_overrides_extension_witness:
  "\<not> isShortcutOrLink ([0x5408, 0x540C, 0x2D, 0x8D44, 0x6599] @ js ''.jpg'') \<and>
   ruleMatches (fst (keywordRules ! 1))
     (toLowerCase (basename ([0x5408, 0x540C, 0x2D, 0x8D44, 0x6599] @ js ''.jpg'')
        (toLowerCase (extname ([0x5408, 0x540C, 0x2D, 0x8D44, 0x6599] @ js ''.jpg''))))) \<and>
   \<not> ruleMatches (fst (keywordRules ! 0))
     (toLowerCase (basename ([0x5408, 0x540C, 0x2D, 0x8D44, 0x6599] @ js ''.jpg'')
        (toLowerCase (extname ([0x5408, 0x540C, 0x2D, 0x8D44, 0x6599] @ js ''.jpg''))))) \<and>
   classifyFile ([0x5408, 0x540C, 0x2D, 0x8D44, 0x6599] @ js ''.jpg'') False False
     = snd (keywordRules ! 1)"
proof -
  have a: "\<not> isShortcutOrLink ([0x5408, 0x540C, 0x2D, 0x8D44, 0x6599] @ js ''.jpg'')"
    by (simp add: classify_eval)
  have b: "ruleMatches (fst (keywordRules ! 1))
     (toLowerCase (basename ([0x5408, 0x540C, 0x2D, 0x8D44, 0x6599] @ js ''.jpg'')
        (toLowerCase (extname ([0x5408, 0x540C, 0x2D, 0x8D44, 0x6599] @ js ''.jpg'')))))"
    by (simp add: classify_eval)
  have c: "\<not> ruleMatches (fst (keywordRules ! 0))
     (toLowerCase (basename ([0x5408, 0x540C, 0x2D, 0x8D44, 0x6599] @ js ''.jpg'')
        (toLowerCase (extname ([0x5408, 0x540C, 0x2D, 0x8D44, 0x6599] @ js ''.jpg'')))))"
    by (simp add: classify_eval)
  have len: "(1::nat) < length keywordRules" by (simp add: keywordRules_def)
  have d: "\<forall>j<1. \<not> ruleMatches (fst (keywordRules ! j))
     (toLowerCase (basename ([0x5408, 0x540C, 0x2D, 0x8D44, 0x6599] @ js ''.jpg'')
        (toLowerCase (extname ([0x5408, 0x540C, 0x2D, 0x8D44, 0x6599] @ js ''.jpg'')))))"
    using c by simp
  have "classifyFile ([0x5408, 0x540C, 0x2D, 0x8D44, 0x6599] @ js ''.jpg'') False False
     = snd (keywordRules ! 1)"
    by (rule keyword_overrides_extension[THEN conjunct1, rule_format,
          of "[0x5408, 0x540C, 0x2D, 0x8D44, 0x6599] @ js ''.jpg''" 1])
       (intro conjI a b len d)
  with a b c show ?thesis by blast
qed

section \<open>Messy names and the rename flag\<close>

lemma replicate_numeral: "replicate (numeral k) x = x # replicate (pred_numeral k) x"
  by (simp add: numeral_eq_Suc)

lemmas name_eval =
  js_def extname_def lastSegment_def extnameSeg_def basename_def Let_def

lemmas rx_eval =
  isMessyFileName_def messyPatterns_def name_eval
  exactly_rx_def atLeast_rx_def lit_def liti_def ciUnit_def opt_def inClass_def
  whiteSpace_def replicate_numeral

lemma updateFirst_map:
  "(\<And>x. h (f x) = h x) \<Longrightarrow> map h (updateFirst P f xs) = map h xs"
  by (induction xs) auto

lemma mergeAI_needsRename: "map r_needsRename (mergeAI rs answer) = map r_needsRename rs"
  by (induction rs answer rule: mergeAI.induct) (auto simp: updateFirst_map)

lemma mergeAI_needsMove: "map r_needsMove (mergeAI rs answer) = map r_needsMove rs"
  by (induction rs answer rule: mergeAI.induct) (auto simp: updateFirst_map)

lemma mergeAI_path: "map r_path (mergeAI rs answer) = map r_path rs"
  by (induction rs answer rule: mergeAI.induct) (auto simp: updateFirst_map)

lemma analyzeFiles_needsRename:
  "map r_needsRename (results (analyzeFiles env files)) =
   map (\<lambda>file. \<not> isDir file \<and>
                \<not> (isShortcutOrLink (name file) \<or> isSymlink file = Some True) \<and>
                isMessyFileName (name file)) files"
  by (simp add: analyzeFiles_def Let_def mergeAI_needsRename suggest_def comp_def
           split: option.split)

lemma analyzeFiles_needsMove:
  "map r_needsMove (results (analyzeFiles env files)) =
   map (\<lambda>file. \<not> (isShortcutOrLink (name file) \<or> isSymlink file = Some True) \<and>
                \<not> isDir file \<and>
                classify file \<in> set (categoriesNeedingFolders (analyzeFiles env files))) files"
  by (simp add: analyzeFiles_def Let_def mergeAI_needsMove suggest_def comp_def
           split: option.split)

lemma mergeAI_length: "length (mergeAI rs answer) = length rs"
  using map_eq_imp_length_eq[OF mergeAI_path] by blast

lemma analyzeFiles_length: "length (results (analyzeFiles env files)) = length files"
  by (simp add: analyzeFiles_def Let_def mergeAI_length split: option.split)

text \<open>
  C8. In the result of the analysis, \<open>needsRename\<close> of an entry is true exactly when the
  entry is not a directory, is not a shortcut (by extension or as a symbolic link), and
  \<^verbatim>\<open>isMessyFileName\<close> holds of its name, that is, when its base name has at least 4 code
  units and one of the messy patterns matches it. \<^verbatim>\<open>IMG_20231215_143022.jpg\<close> is messy,
  the name U+5E74 U+5EA6 U+62A5 U+544A .docx is not, and no name whose base name is
  shorter than 4 is.
\<close>

theorem needsRename_iff_messy:
  "(\<forall>env files i. i < length files \<longrightarrow>
      r_needsRename (results (analyzeFiles env files) ! i) =
        (\<not> isDir (files ! i) \<and>
         \<not> (isShortcutOrLink (name (files ! i)) \<or> isSymlink (files ! i) = Some True) \<and>
         isMessyFileName (name (files ! i)))) \<and>
   (\<forall>fileName. isMessyFileName fileName =
      (4 \<le> length (basename fileName (extname fileName)) \<and>
       (\<exists>pattern \<in> set messyPatterns. test pattern (basename fileName (extname fileName))))) \<and>
   isMessyFileName (js ''IMG_20231215_143022.jpg'') \<and>
   \<not> isMessyFileName ([0x5E74, 0x5EA6, 0x62A5, 0x544A] @ js ''.docx'') \<and>
   (\<forall>fileName. length (basename fileName (extname fileName)) < 4 \<longrightarrow>
      \<not> isMessyFileName fileName)"
proof (intro conjI allI impI)
  fix env :: analysisEnv and files :: "fileInfo list" and i :: nat
  assume i: "i < length files"
  have "r_needsRename (results (analyzeFiles env files) ! i) =
        map r_needsRename (results (analyzeFiles env files)) ! i"
    using i by (simp add: analyzeFiles_length)
  also have "\<dots> = (\<not> isDir (files ! i) \<and>
         \<not> (isShortcutOrLink (name (files ! i)) \<or> isSymlink (files ! i) = Some True) \<and>
         isMessyFileName (name (files ! i)))"
    using i by (simp add: analyzeFiles_needsRename)
  finally show "r_needsRename (results (analyzeFiles env files) ! i) =
        (\<not> isDir (files ! i) \<and>
         \<not> (isShortcutOrLink (name (files ! i)) \<or> isSymlink (files ! i) = Some True) \<and>
         isMessyFileName (name (files ! i)))" .
next
  fix fileName
  show "isMessyFileName fileName =
      (4 \<le> length (basename fileName (extname fileName)) \<and>
       (\<exists>pattern \<in> set messyPatterns. test pattern (basename fileName (extname fileName))))"
    by (auto simp: isMessyFileName_def Let_def list_ex_iff)
next
  show "isMessyFileName (js ''IMG_20231215_143022.jpg'')"
    by (simp add: rx_eval)
next
  show "\<not> isMessyFileName ([0x5E74, 0x5EA6, 0x62A5, 0x544A] @ js ''.docx'')"
    by (simp add: rx_eval)
next
  fix fileName
  assume "length (basename fileName (extname fileName)) < 4"
  thus "\<not> isMessyFileName fileName"
    by (simp add: isMessyFileName_def Let_def)
qed

theorem needsRename_iff_messy_witness:
  "length (basename (js ''a_1.png'') (extname (js ''a_1.png''))) < 4 \<and>
   \<not> isMessyFileName (js ''a_1.png'') \<and>
   r_needsRename (results (analyzeFiles
     \<lparr> currentUser = js ''user'', parseDate = (\<lambda>t. InvalidDate), now = LocalDate 2024 0 8,
        isOpencodeAvailable = False, aiFiles = None \<rparr>
     [\<lparr> name = js ''IMG_20231215_143022.jpg'', path = js ''/d/IMG_20231215_143022.jpg'',
        extension = js ''.jpg'', size_bytes = 10, isDirectory = Some False,
        isSymlink = Some False, modifiedTime = None \<rparr>]) ! 0)"
proof -
  let ?env = "\<lparr> currentUser = js ''user'', parseDate = (\<lambda>t. InvalidDate), now = LocalDate 2024 0 8,
        isOpencodeAvailable = False, aiFiles = None \<rparr>"
  have short: "length (basename (js ''a_1.png'') (extname (js ''a_1.png''))) < 4"
    by (simp add: name_eval)
  have a: "\<not> isMessyFileName (js ''a_1.png'')"
    using needsRename_iff_messy short by blast
  let ?f = "\<lparr> name = js ''IMG_20231215_143022.jpg'', path = js ''/d/IMG_20231215_143022.jpg'',
        extension = js ''.jpg'', size_bytes = 10, isDirectory = Some False,
        isSymlink = Some False, modifiedTime = None \<rparr>"
  have m: "isMessyFileName (name ?f)"
    using needsRename_iff_messy[THEN conjunct2, THEN conjunct2, THEN conjunct1] by simp
  have s: "\<not> isShortcutOrLink (name ?f)"
    by (simp add: isShortcutOrLink_def shortcutExtensions_def lower_eval name_eval)
  have "r_needsRename (results (analyzeFiles ?env [?f]) ! 0) =
        (\<not> isDir ([?f] ! 0) \<and>
         \<not> (isShortcutOrLink (name ([?f] ! 0)) \<or> isSymlink ([?f] ! 0) = Some True) \<and>
         isMessyFileName (name ([?f] ! 0)))"
    using needsRename_iff_messy[THEN conjunct1, rule_format, where files = "[?f]" and i = 0 and env = ?env] by simp
  hence b: "r_needsRename (results (analyzeFiles ?env [?f]) ! 0)"
    using m s by (simp add: isDir_def)
  from short a b show ?thesis by blast
qed

section \<open>Date token\<close>

lemma digitsPrefix_Some:
  "digitsPrefix n s = Some (ds, rest) \<Longrightarrow> length ds = n \<and> list_all isDigit ds \<and> s = ds @ rest"
proof (induction n s arbitrary: ds rest rule: digitsPrefix.induct)
  case (1 s)
  then show ?case by simp
next
  case (2 n)
  then show ?case by simp
next
  case (3 n c cs)
  from "3.prems" obtain ds' where c: "isDigit c" and r: "digitsPrefix n cs = Some (ds', rest)"
    and ds: "ds = c # ds'"
    by (auto split: if_splits option.splits)
  from "3.IH"[OF c r] c ds show ?case by simp
qed

lemma digitsPrefix_numeral_Nil: "digitsPrefix (numeral k) [] = None"
  by (simp add: numeral_eq_Suc)

lemma digitsPrefix_numeral_Cons:
  "digitsPrefix (numeral k) (c # cs) =
     (if isDigit c then
        (case digitsPrefix (pred_numeral k) cs of None \<Rightarrow> None
         | Some (ds, rest) \<Rightarrow> Some (c # ds, rest))
      else None)"
  by (simp add: numeral_eq_Suc)

lemmas date_eval =
  extractDateFromFile_def datePatterns_def matchYMD_def matchDMY_def isDigit_def name_eval
  digitsPrefix_numeral_Nil digitsPrefix_numeral_Cons

lemma matchYMD_Some:
  assumes "matchYMD s = Some (g1, g2, g3)"
  shows "length g1 = 4 \<and> length g2 = 2 \<and> length g3 = 2 \<and>
         list_all isDigit g1 \<and> list_all isDigit g2 \<and> list_all isDigit g3"
proof -
  from assms obtain r1 r2 r3 where
    "digitsPrefix 4 s = Some (g1, r1)" "digitsPrefix 2 (optSep r1) = Some (g2, r2)"
    "digitsPrefix 2 (optSep r2) = Some (g3, r3)"
    by (auto simp: matchYMD_def split: option.splits)
  thus ?thesis by (auto dest!: digitsPrefix_Some)
qed

lemma matchDMY_Some:
  assumes "matchDMY s = Some (g1, g2, g3)"
  shows "length g1 = 2 \<and> length g2 = 2 \<and> length g3 = 4 \<and>
         list_all isDigit g1 \<and> list_all isDigit g2 \<and> list_all isDigit g3"
proof -
  from assms obtain r1 r1' r2 r2' r3 where
    "digitsPrefix 2 s = Some (g1, r1)" "digitsPrefix 2 r1' = Some (g2, r2)"
    "digitsPrefix 4 r2' = Some (g3, r3)"
    by (auto simp: matchDMY_def split: option.splits)
  thus ?thesis by (auto dest!: digitsPrefix_Some)
qed

lemma matchAnywhere_Some:
  "matchAnywhere m s = Some g \<Longrightarrow> \<exists>t. suffix t s \<and> m t = Some g"
proof (induction s)
  case Nil
  then show ?case by auto
next
  case (Cons c cs)
  show ?case
  proof (cases "m (c # cs)")
    case None
    with Cons obtain t where "suffix t cs" "m t = Some g" by auto
    thus ?thesis by (auto intro: suffix_ConsI)
  next
    case (Some a)
    with Cons.prems show ?thesis by auto
  qed
qed

lemma dateFromName_token:
  assumes "dateFromName datePatterns name' = Some token"
  shows "length token = 8 \<and> list_all isDigit token"
proof (cases "matchAnywhere matchYMD name'")
  case (Some g)
  obtain g1 g2 g3 where g: "g = (g1, g2, g3)" by (cases g)
  from Some g obtain t where "matchYMD t = Some (g1, g2, g3)"
    by (auto dest: matchAnywhere_Some)
  from matchYMD_Some[OF this] assms Some g show ?thesis
    by (auto simp: datePatterns_def)
next
  case None
  with assms obtain g1 g2 g3 where m: "matchAnywhere matchDMY name' = Some (g1, g2, g3)"
    and tok: "token = (if length g1 = 4 then g1 @ g2 @ g3 else g3 @ g1 @ g2)"
    by (auto simp: datePatterns_def split: option.splits)
  from m obtain t where "matchDMY t = Some (g1, g2, g3)"
    by (auto dest: matchAnywhere_Some)
  from matchDMY_Some[OF this] tok show ?thesis by auto
qed

lemma natToString_digits: "list_all isDigit (natToString n)"
proof (induction n rule: natToString.induct)
  case (1 n)
  show ?case
  proof (cases "n < 10")
    case True
    thus ?thesis by (subst natToString.simps) (simp add: isDigit_def)
  next
    case False
    have "n mod 10 < 10" by simp
    hence "isDigit (48 + n mod 10)" unfolding isDigit_def by linarith
    with False "1.IH" show ?thesis
      by (subst natToString.simps) simp
  qed
qed

lemma natToString_length1: "n < 10 \<Longrightarrow> length (natToString n) = 1"
  by (subst natToString.simps) simp

lemma natToString_length2: "10 \<le> n \<Longrightarrow> n < 100 \<Longrightarrow> length (natToString n) = 2"
  by (subst natToString.simps) (simp add: natToString_length1)

lemma natToString_length3: "100 \<le> n \<Longrightarrow> n < 1000 \<Longrightarrow> length (natToString n) = 3"
  by (subst natToString.simps) (simp add: natToString_length2)

lemma natToString_length4: "1000 \<le> n \<Longrightarrow> n < 10000 \<Longrightarrow> length (natToString n) = 4"
  by (subst natToString.simps) (simp add: natToString_length3)

lemma padStart2_two:
  "n < 100 \<Longrightarrow> length (padStart2 (natToString n)) = 2 \<and> list_all isDigit (padStart2 (natToString n))"
proof (cases "n < 10")
  case True
  thus ?thesis
    by (simp add: padStart2_def natToString_length1 natToString_digits isDigit_def)
next
  case False
  assume "n < 100"
  with False show ?thesis
    by (simp add: padStart2_def natToString_length2 natToString_digits)
qed

lemma formatDate_four_digit_year:
  assumes "1000 \<le> y" "y \<le> 9999" "m < 12" "d \<le> 31"
  shows "length (formatDate (LocalDate y m d)) = 8 \<and> list_all isDigit (formatDate (LocalDate y m d))"
proof -
  from assms have y: "intToString y = natToString (nat y)" "1000 \<le> nat y" "nat y < 10000"
    by (auto simp: intToString_def)
  have "length (natToString (nat y)) = 4" using y by (simp add: natToString_length4)
  moreover have "m + 1 < 100" "d < 100" using assms by auto
  ultimately show ?thesis
    using padStart2_two[of "m + 1"] padStart2_two[of d] y natToString_digits[of "nat y"]
    by simp
qed

text \<open>What the two patterns match at the start of a string, and where a search stops.\<close>

lemma digitsPrefix_app:
  "length ds = n \<Longrightarrow> list_all isDigit ds \<Longrightarrow> digitsPrefix n (ds @ rest) = Some (ds, rest)"
proof (induction ds arbitrary: n)
  case Nil
  then show ?case by simp
next
  case (Cons c ds)
  then obtain n' where n: "n = Suc n'" "length ds = n'" by (cases n) auto
  with Cons show ?case by simp
qed

lemma optSep_cases: "\<exists>s1. (s1 = [] \<or> s1 = [45] \<or> s1 = [95]) \<and> r = s1 @ optSep r"
  by (cases r) auto

lemma optSep_app:
  assumes "s1 = [] \<or> s1 = [45] \<or> s1 = [95]" "t \<noteq> []" "isDigit (hd t)"
  shows "optSep (s1 @ t) = t"
  using assms by (cases t) (auto simp: isDigit_def)

lemma reqSep_Some: "reqSep r = Some r' \<longleftrightarrow> (\<exists>c. (c = 45 \<or> c = 95) \<and> r = c # r')"
  by (cases r) auto

lemma matchYMD_iff:
  "matchYMD s = Some (y, m, d) \<longleftrightarrow>
     (\<exists>s1 s2 rest. s = y @ s1 @ m @ s2 @ d @ rest \<and>
        length y = 4 \<and> length m = 2 \<and> length d = 2 \<and>
        list_all isDigit y \<and> list_all isDigit m \<and> list_all isDigit d \<and>
        (s1 = [] \<or> s1 = [45] \<or> s1 = [95]) \<and> (s2 = [] \<or> s2 = [45] \<or> s2 = [95]))"
proof
  assume a: "matchYMD s = Some (y, m, d)"
  then obtain r1 r2 r3 where
    p: "digitsPrefix 4 s = Some (y, r1)" "digitsPrefix 2 (optSep r1) = Some (m, r2)"
       "digitsPrefix 2 (optSep r2) = Some (d, r3)"
    by (auto simp: matchYMD_def split: option.splits)
  from digitsPrefix_Some[OF p(1)] digitsPrefix_Some[OF p(2)] digitsPrefix_Some[OF p(3)]
  have f: "length y = 4" "list_all isDigit y" "s = y @ r1"
          "length m = 2" "list_all isDigit m" "optSep r1 = m @ r2"
          "length d = 2" "list_all isDigit d" "optSep r2 = d @ r3" by auto
  obtain s1 where s1: "s1 = [] \<or> s1 = [45] \<or> s1 = [95]" "r1 = s1 @ optSep r1"
    using optSep_cases[of r1] by blast
  obtain s2 where s2: "s2 = [] \<or> s2 = [45] \<or> s2 = [95]" "r2 = s2 @ optSep r2"
    using optSep_cases[of r2] by blast
  have "s = y @ s1 @ m @ s2 @ d @ r3" using f(3,6,9) s1(2) s2(2) by simp
  with f s1(1) s2(1) show "\<exists>s1 s2 rest. s = y @ s1 @ m @ s2 @ d @ rest \<and>
        length y = 4 \<and> length m = 2 \<and> length d = 2 \<and>
        list_all isDigit y \<and> list_all isDigit m \<and> list_all isDigit d \<and>
        (s1 = [] \<or> s1 = [45] \<or> s1 = [95]) \<and> (s2 = [] \<or> s2 = [45] \<or> s2 = [95])"
    by blast
next
  assume "\<exists>s1 s2 rest. s = y @ s1 @ m @ s2 @ d @ rest \<and>
        length y = 4 \<and> length m = 2 \<and> length d = 2 \<and>
        list_all isDigit y \<and> list_all isDigit m \<and> list_all isDigit d \<and>
        (s1 = [] \<or> s1 = [45] \<or> s1 = [95]) \<and> (s2 = [] \<or> s2 = [45] \<or> s2 = [95])"
  then obtain s1 s2 rest where
    s: "s = y @ s1 @ m @ s2 @ d @ rest"
    and l: "length y = 4" "length m = 2" "length d = 2"
    and g: "list_all isDigit y" "list_all isDigit m" "list_all isDigit d"
    and s1: "s1 = [] \<or> s1 = [45] \<or> s1 = [95]" and s2: "s2 = [] \<or> s2 = [45] \<or> s2 = [95]"
    by blast
  have hm: "m @ s2 @ d @ rest \<noteq> []" "isDigit (hd (m @ s2 @ d @ rest))"
    using l(2) g(2) by (cases m; simp)+
  have hd': "d @ rest \<noteq> []" "isDigit (hd (d @ rest))"
    using l(3) g(3) by (cases d; simp)+
  have 1: "digitsPrefix 4 s = Some (y, s1 @ m @ s2 @ d @ rest)"
    unfolding s by (rule digitsPrefix_app[OF l(1) g(1)])
  have 2: "digitsPrefix 2 (optSep (s1 @ m @ s2 @ d @ rest)) = Some (m, s2 @ d @ rest)"
    unfolding optSep_app[OF s1 hm] by (rule digitsPrefix_app[OF l(2) g(2)])
  have 3: "digitsPrefix 2 (optSep (s2 @ d @ rest)) = Some (d, rest)"
    unfolding optSep_app[OF s2 hd'] by (rule digitsPrefix_app[OF l(3) g(3)])
  show "matchYMD s = Some (y, m, d)" by (simp add: matchYMD_def 1 2 3)
qed

lemma matchDMY_iff:
  "matchDMY s = Some (a, b, y) \<longleftrightarrow>
     (\<exists>c1 c2 rest. s = a @ [c1] @ b @ [c2] @ y @ rest \<and>
        length a = 2 \<and> length b = 2 \<and> length y = 4 \<and>
        list_all isDigit a \<and> list_all isDigit b \<and> list_all isDigit y \<and>
        (c1 = 45 \<or> c1 = 95) \<and> (c2 = 45 \<or> c2 = 95))"
proof
  assume "matchDMY s = Some (a, b, y)"
  then obtain r1 r1' r2 r2' r3 where
    p: "digitsPrefix 2 s = Some (a, r1)" "reqSep r1 = Some r1'"
       "digitsPrefix 2 r1' = Some (b, r2)" "reqSep r2 = Some r2'"
       "digitsPrefix 4 r2' = Some (y, r3)"
    by (auto simp: matchDMY_def split: option.splits)
  from digitsPrefix_Some[OF p(1)] digitsPrefix_Some[OF p(3)] digitsPrefix_Some[OF p(5)]
  have f: "length a = 2" "list_all isDigit a" "s = a @ r1"
          "length b = 2" "list_all isDigit b" "r1' = b @ r2"
          "length y = 4" "list_all isDigit y" "r2' = y @ r3" by auto
  from p(2) obtain c1 where c1: "c1 = 45 \<or> c1 = 95" "r1 = c1 # r1'"
    unfolding reqSep_Some by blast
  from p(4) obtain c2 where c2: "c2 = 45 \<or> c2 = 95" "r2 = c2 # r2'"
    unfolding reqSep_Some by blast
  have "s = a @ [c1] @ b @ [c2] @ y @ r3" using f(3,6,9) c1(2) c2(2) by simp
  with f c1(1) c2(1) show "\<exists>c1 c2 rest. s = a @ [c1] @ b @ [c2] @ y @ rest \<and>
        length a = 2 \<and> length b = 2 \<and> length y = 4 \<and>
        list_all isDigit a \<and> list_all isDigit b \<and> list_all isDigit y \<and>
        (c1 = 45 \<or> c1 = 95) \<and> (c2 = 45 \<or> c2 = 95)"
    by blast
next
  assume "\<exists>c1 c2 rest. s = a @ [c1] @ b @ [c2] @ y @ rest \<and>
        length a = 2 \<and> length b = 2 \<and> length y = 4 \<and>
        list_all isDigit a \<and> list_all isDigit b \<and> list_all isDigit y \<and>
        (c1 = 45 \<or> c1 = 95) \<and> (c2 = 45 \<or> c2 = 95)"
  then obtain c1 c2 rest where
    s: "s = a @ [c1] @ b @ [c2] @ y @ rest"
    and l: "length a = 2" "length b = 2" "length y = 4"
    and g: "list_all isDigit a" "list_all isDigit b" "list_all isDigit y"
    and c: "c1 = 45 \<or> c1 = 95" "c2 = 45 \<or> c2 = 95"
    by blast
  have 1: "digitsPrefix 2 s = Some (a, [c1] @ b @ [c2] @ y @ rest)"
    unfolding s by (rule digitsPrefix_app[OF l(1) g(1)])
  have 2: "reqSep ([c1] @ b @ [c2] @ y @ rest) = Some (b @ [c2] @ y @ rest)"
    using c(1) by auto
  have 3: "digitsPrefix 2 (b @ [c2] @ y @ rest) = Some (b, [c2] @ y @ rest)"
    by (rule digitsPrefix_app[OF l(2) g(2)])
  have 4: "reqSep ([c2] @ y @ rest) = Some (y @ rest)"
    using c(2) by auto
  have 5: "digitsPrefix 4 (y @ rest) = Some (y, rest)"
    by (rule digitsPrefix_app[OF l(3) g(3)])
  show "matchDMY s = Some (a, b, y)" by (simp only: matchDMY_def 1 2 3 4 5 option.case prod.case)
qed

lemma matchAnywhere_None:
  "matchAnywhere m s = None \<longleftrightarrow> (\<forall>k\<le>length s. m (drop k s) = None)"
proof (induction s)
  case Nil
  then show ?case by simp
next
  case (Cons c cs)
  have "(\<forall>k\<le>length (c # cs). m (drop k (c # cs)) = None) \<longleftrightarrow>
        m (c # cs) = None \<and> (\<forall>k\<le>length cs. m (drop k cs) = None)"
  proof
    assume a: "\<forall>k\<le>length (c # cs). m (drop k (c # cs)) = None"
    hence "m (drop 0 (c # cs)) = None" by blast
    moreover have "\<forall>k\<le>length cs. m (drop k cs) = None"
    proof (intro allI impI)
      fix k assume "k \<le> length cs"
      hence "Suc k \<le> length (c # cs)" by simp
      with a have "m (drop (Suc k) (c # cs)) = None" by blast
      thus "m (drop k cs) = None" by simp
    qed
    ultimately show "m (c # cs) = None \<and> (\<forall>k\<le>length cs. m (drop k cs) = None)" by simp
  next
    assume a: "m (c # cs) = None \<and> (\<forall>k\<le>length cs. m (drop k cs) = None)"
    show "\<forall>k\<le>length (c # cs). m (drop k (c # cs)) = None"
    proof (intro allI impI)
      fix k assume "k \<le> length (c # cs)"
      with a show "m (drop k (c # cs)) = None" by (cases k) auto
    qed
  qed
  with Cons show ?case by (auto split: option.splits)
qed

lemma matchAnywhere_leftmost:
  assumes "k \<le> length s" "m (drop k s) = Some g" "\<forall>j<k. m (drop j s) = None"
  shows "matchAnywhere m s = Some g"
  using assms
proof (induction s arbitrary: k)
  case Nil
  then show ?case by simp
next
  case (Cons c cs)
  show ?case
  proof (cases k)
    case 0
    with Cons.prems show ?thesis by simp
  next
    case (Suc k')
    with Cons.prems(3) have n: "m (drop 0 (c # cs)) = None" by blast
    have "\<forall>j<k'. m (drop j cs) = None"
    proof (intro allI impI)
      fix j assume "j < k'"
      hence "Suc j < k" using Suc by simp
      with Cons.prems(3) have "m (drop (Suc j) (c # cs)) = None" by blast
      thus "m (drop j cs) = None" by simp
    qed
    with Cons.IH[of k'] Cons.prems Suc have "matchAnywhere m cs = Some g" by simp
    with n show ?thesis by simp
  qed
qed

lemma dateFromName_cases:
  "dateFromName datePatterns n =
     (case matchAnywhere matchYMD n of
        Some (y, m, d) \<Rightarrow> Some (y @ m @ d)
      | None \<Rightarrow>
          (case matchAnywhere matchDMY n of
             Some (a, b, y) \<Rightarrow> Some (y @ a @ b)
           | None \<Rightarrow> None))"
proof (cases "matchAnywhere matchYMD n")
  case (Some g)
  obtain y m d where g: "g = (y, m, d)" by (cases g)
  from Some g obtain t where "matchYMD t = Some (y, m, d)" by (auto dest: matchAnywhere_Some)
  from matchYMD_Some[OF this] have "length y = 4" by simp
  with Some g show ?thesis by (simp add: datePatterns_def)
next
  case None
  show ?thesis
  proof (cases "matchAnywhere matchDMY n")
    case n2: None
    with None show ?thesis by (simp add: datePatterns_def)
  next
    case (Some g)
    obtain a b y where g: "g = (a, b, y)" by (cases g)
    from Some g obtain t where "matchDMY t = Some (a, b, y)" by (auto dest: matchAnywhere_Some)
    from matchDMY_Some[OF this] have "length a = 2" by simp
    with None Some g show ?thesis by (simp add: datePatterns_def)
  qed
qed

text \<open>
  C9, as the code has it. The date token of \<^verbatim>\<open>extractDateFromFile\<close> comes first from the
  base name. The first pattern matches at the start of a string exactly when the string
  starts with four digits, two digits and two digits, each pair after an optional \<^verbatim>\<open>-\<close> or
  \<^verbatim>\<open>_\<close>; the second exactly when it starts with two digits, two digits and four digits,
  separated by one \<^verbatim>\<open>-\<close> or \<^verbatim>\<open>_\<close> each. When the first pattern matches somewhere in the base
  name, its leftmost match gives the token, the eight digits in their order, whatever the
  second pattern would match. When the first pattern matches nowhere and the second
  somewhere, the leftmost match of the second gives the four digits followed by the two
  pairs in their order. Such a token is exactly 8 digits. When neither matches anywhere,
  the token is the modification date when one is given (and not empty), else the current
  date, written as the year followed by two digits each for the month and the day:
  exactly 8 digits when that date is valid and its year has four digits.
\<close>

theorem date_token_sources:
  "(\<forall>s y m d. matchYMD s = Some (y, m, d) \<longleftrightarrow>
      (\<exists>s1 s2 rest. s = y @ s1 @ m @ s2 @ d @ rest \<and>
         length y = 4 \<and> length m = 2 \<and> length d = 2 \<and>
         list_all isDigit y \<and> list_all isDigit m \<and> list_all isDigit d \<and>
         (s1 = [] \<or> s1 = [45] \<or> s1 = [95]) \<and> (s2 = [] \<or> s2 = [45] \<or> s2 = [95]))) \<and>
   (\<forall>s a b y. matchDMY s = Some (a, b, y) \<longleftrightarrow>
      (\<exists>c1 c2 rest. s = a @ [c1] @ b @ [c2] @ y @ rest \<and>
         length a = 2 \<and> length b = 2 \<and> length y = 4 \<and>
         list_all isDigit a \<and> list_all isDigit b \<and> list_all isDigit y \<and>
         (c1 = 45 \<or> c1 = 95) \<and> (c2 = 45 \<or> c2 = 95))) \<and>
   (\<forall>k y m d.
      k \<le> length (basename fileName (extname fileName)) \<and>
      matchYMD (drop k (basename fileName (extname fileName))) = Some (y, m, d) \<and>
      (\<forall>j<k. matchYMD (drop j (basename fileName (extname fileName))) = None)
      \<longrightarrow> extractDateFromFile parseDate' now' fileName mtime = y @ m @ d) \<and>
   (\<forall>k a b y.
      (\<forall>j\<le>length (basename fileName (extname fileName)).
          matchYMD (drop j (basename fileName (extname fileName))) = None) \<and>
      k \<le> length (basename fileName (extname fileName)) \<and>
      matchDMY (drop k (basename fileName (extname fileName))) = Some (a, b, y) \<and>
      (\<forall>j<k. matchDMY (drop j (basename fileName (extname fileName))) = None)
      \<longrightarrow> extractDateFromFile parseDate' now' fileName mtime = y @ a @ b) \<and>
   ((\<forall>j\<le>length (basename fileName (extname fileName)).
        matchYMD (drop j (basename fileName (extname fileName))) = None \<and>
        matchDMY (drop j (basename fileName (extname fileName))) = None)
      \<longrightarrow> extractDateFromFile parseDate' now' fileName mtime =
            formatDate (case mtime of Some t \<Rightarrow> if t \<noteq> [] then parseDate' t else now'
                                    | None \<Rightarrow> now')) \<and>
   (\<forall>token. dateFromName datePatterns (basename fileName (extname fileName)) = Some token \<longrightarrow>
      extractDateFromFile parseDate' now' fileName mtime = token \<and>
      length token = 8 \<and> list_all isDigit token) \<and>
   (dateFromName datePatterns (basename fileName (extname fileName)) = None \<longrightarrow>
      extractDateFromFile parseDate' now' fileName mtime =
        formatDate (case mtime of Some t \<Rightarrow> if t \<noteq> [] then parseDate' t else now'
                                | None \<Rightarrow> now')) \<and>
   (\<forall>y m d. 1000 \<le> y \<and> y \<le> 9999 \<and> m < 12 \<and> d \<le> 31 \<longrightarrow>
      length (formatDate (LocalDate y m d)) = 8 \<and>
      list_all isDigit (formatDate (LocalDate y m d))) \<and>
   extractDateFromFile parseDate' now' (js ''IMG_20231215_143022.jpg'') mtime = js ''20231215'' \<and>
   extractDateFromFile parseDate' now' (js ''scan_12-01-2023.pdf'') mtime = js ''20231201'' \<and>
   extractDateFromFile parseDate' now' (js ''12-01-2023_2022_05_06.txt'') mtime = js ''20232022''"
proof -
  let ?n = "basename fileName (extname fileName)"
  let ?fallback = "formatDate (case mtime of Some t \<Rightarrow> if t \<noteq> [] then parseDate' t else now'
                                | None \<Rightarrow> now')"
  have ex: "extractDateFromFile parseDate' now' fileName mtime =
              (case dateFromName datePatterns ?n of Some token \<Rightarrow> token | None \<Rightarrow> ?fallback)"
    by (simp add: extractDateFromFile_def Let_def split: option.split)
  have c1: "\<forall>s y m d. matchYMD s = Some (y, m, d) \<longleftrightarrow>
      (\<exists>s1 s2 rest. s = y @ s1 @ m @ s2 @ d @ rest \<and>
         length y = 4 \<and> length m = 2 \<and> length d = 2 \<and>
         list_all isDigit y \<and> list_all isDigit m \<and> list_all isDigit d \<and>
         (s1 = [] \<or> s1 = [45] \<or> s1 = [95]) \<and> (s2 = [] \<or> s2 = [45] \<or> s2 = [95]))"
    using matchYMD_iff by blast
  have c2: "\<forall>s a b y. matchDMY s = Some (a, b, y) \<longleftrightarrow>
      (\<exists>c1 c2 rest. s = a @ [c1] @ b @ [c2] @ y @ rest \<and>
         length a = 2 \<and> length b = 2 \<and> length y = 4 \<and>
         list_all isDigit a \<and> list_all isDigit b \<and> list_all isDigit y \<and>
         (c1 = 45 \<or> c1 = 95) \<and> (c2 = 45 \<or> c2 = 95))"
    using matchDMY_iff by blast
  have c3: "\<forall>k y m d.
      k \<le> length ?n \<and> matchYMD (drop k ?n) = Some (y, m, d) \<and>
      (\<forall>j<k. matchYMD (drop j ?n) = None)
      \<longrightarrow> extractDateFromFile parseDate' now' fileName mtime = y @ m @ d"
  proof (intro allI impI)
    fix k y m d
    assume "k \<le> length ?n \<and> matchYMD (drop k ?n) = Some (y, m, d) \<and>
      (\<forall>j<k. matchYMD (drop j ?n) = None)"
    hence "matchAnywhere matchYMD ?n = Some (y, m, d)"
      using matchAnywhere_leftmost[of k ?n matchYMD "(y, m, d)"] by blast
    thus "extractDateFromFile parseDate' now' fileName mtime = y @ m @ d"
      by (simp add: ex dateFromName_cases)
  qed
  have c4: "\<forall>k a b y.
      (\<forall>j\<le>length ?n. matchYMD (drop j ?n) = None) \<and>
      k \<le> length ?n \<and> matchDMY (drop k ?n) = Some (a, b, y) \<and>
      (\<forall>j<k. matchDMY (drop j ?n) = None)
      \<longrightarrow> extractDateFromFile parseDate' now' fileName mtime = y @ a @ b"
  proof (intro allI impI)
    fix k a b y
    assume h: "(\<forall>j\<le>length ?n. matchYMD (drop j ?n) = None) \<and>
      k \<le> length ?n \<and> matchDMY (drop k ?n) = Some (a, b, y) \<and>
      (\<forall>j<k. matchDMY (drop j ?n) = None)"
    hence n: "matchAnywhere matchYMD ?n = None" by (simp add: matchAnywhere_None)
    from h have "matchAnywhere matchDMY ?n = Some (a, b, y)"
      using matchAnywhere_leftmost[of k ?n matchDMY "(a, b, y)"] by blast
    with n show "extractDateFromFile parseDate' now' fileName mtime = y @ a @ b"
      by (simp add: ex dateFromName_cases)
  qed
  have c5: "(\<forall>j\<le>length ?n. matchYMD (drop j ?n) = None \<and> matchDMY (drop j ?n) = None)
      \<longrightarrow> extractDateFromFile parseDate' now' fileName mtime = ?fallback"
  proof
    assume "\<forall>j\<le>length ?n. matchYMD (drop j ?n) = None \<and> matchDMY (drop j ?n) = None"
    hence "matchAnywhere matchYMD ?n = None" "matchAnywhere matchDMY ?n = None"
      by (simp_all add: matchAnywhere_None)
    thus "extractDateFromFile parseDate' now' fileName mtime = ?fallback"
      by (simp add: ex dateFromName_cases)
  qed
  have c6: "\<forall>token. dateFromName datePatterns ?n = Some token \<longrightarrow>
      extractDateFromFile parseDate' now' fileName mtime = token \<and>
      length token = 8 \<and> list_all isDigit token"
    using dateFromName_token[of ?n] by (simp add: ex)
  have c7: "dateFromName datePatterns ?n = None \<longrightarrow>
      extractDateFromFile parseDate' now' fileName mtime = ?fallback"
    by (simp add: ex)
  have c8: "\<forall>y m d. 1000 \<le> y \<and> y \<le> 9999 \<and> m < 12 \<and> d \<le> 31 \<longrightarrow>
      length (formatDate (LocalDate y m d)) = 8 \<and>
      list_all isDigit (formatDate (LocalDate y m d))"
    using formatDate_four_digit_year by blast
  have e1: "extractDateFromFile parseDate' now' (js ''IMG_20231215_143022.jpg'') mtime = js ''20231215''"
    by (simp add: date_eval)
  have e2: "extractDateFromFile parseDate' now' (js ''scan_12-01-2023.pdf'') mtime = js ''20231201''"
    by (simp add: date_eval)
  have e3: "extractDateFromFile parseDate' now' (js ''12-01-2023_2022_05_06.txt'') mtime = js ''20232022''"
    by (simp add: date_eval)
  from c1 c2 c3 c4 c5 c6 c7 c8 e1 e2 e3 show ?thesis by (intro conjI)
qed

theorem date_token_sources_witness:
  "isMessyFileName (js ''Copy of 12-01-2023_2022_05_06.txt'') \<and>
   basename (js ''Copy of 12-01-2023_2022_05_06.txt'') (extname (js ''Copy of 12-01-2023_2022_05_06.txt''))
     = js ''Copy of 12-01-2023_2022_05_06'' \<and>
   matchDMY (drop 8 (js ''Copy of 12-01-2023_2022_05_06'')) = Some (js ''12'', js ''01'', js ''2023'') \<and>
   matchYMD (drop 14 (js ''Copy of 12-01-2023_2022_05_06'')) = Some (js ''2023'', js ''20'', js ''22'') \<and>
   list_all (\<lambda>j. matchYMD (drop j (js ''Copy of 12-01-2023_2022_05_06'')) = None) [0..<14] \<and>
   extractDateFromFile (\<lambda>t. LocalDate 2024 0 8) (LocalDate 2025 5 1)
     (js ''Copy of 12-01-2023_2022_05_06.txt'') None = js ''20232022'' \<and>
   isMessyFileName (js ''Copy of 15-12-2023.pdf'') \<and>
   basename (js ''Copy of 15-12-2023.pdf'') (extname (js ''Copy of 15-12-2023.pdf''))
     = js ''Copy of 15-12-2023'' \<and>
   list_all (\<lambda>j. matchYMD (drop j (js ''Copy of 15-12-2023'')) = None) [0..<19] \<and>
   matchDMY (drop 8 (js ''Copy of 15-12-2023'')) = Some (js ''15'', js ''12'', js ''2023'') \<and>
   list_all (\<lambda>j. matchDMY (drop j (js ''Copy of 15-12-2023'')) = None) [0..<8] \<and>
   extractDateFromFile (\<lambda>t. LocalDate 2024 0 8) (LocalDate 2025 5 1)
     (js ''Copy of 15-12-2023.pdf'') None = js ''20231512'' \<and>
   isMessyFileName (js ''untitled.txt'') \<and>
   basename (js ''untitled.txt'') (extname (js ''untitled.txt'')) = js ''untitled'' \<and>
   list_all (\<lambda>j. matchYMD (drop j (js ''untitled'')) = None \<and>
                   matchDMY (drop j (js ''untitled'')) = None) [0..<9] \<and>
   extractDateFromFile (\<lambda>t. LocalDate 2024 0 8) (LocalDate 2025 5 1) (js ''untitled.txt'')
     (Some (js ''2024-01-08T10:00:00.000Z'')) = js ''20240108'' \<and>
   extractDateFromFile (\<lambda>t. LocalDate 2024 0 8) (LocalDate 2025 5 1) (js ''untitled.txt'')
     None = js ''20250601'' \<and>
   length (formatDate (LocalDate 2024 0 8)) = 8"
proof -
  let ?p = "\<lambda>t::jstring. LocalDate 2024 0 8" and ?n = "LocalDate 2025 5 1"
  let ?f1 = "js ''Copy of 12-01-2023_2022_05_06.txt''" and ?b1 = "js ''Copy of 12-01-2023_2022_05_06''"
  let ?f2 = "js ''Copy of 15-12-2023.pdf''" and ?b2 = "js ''Copy of 15-12-2023''"
  let ?f3 = "js ''untitled.txt''" and ?b3 = "js ''untitled''"
  note th = date_token_sources[where parseDate' = ?p and now' = ?n]
  have m1: "isMessyFileName ?f1" by (simp add: rx_eval)
  have m2: "isMessyFileName ?f2" by (simp add: rx_eval)
  have m3: "isMessyFileName ?f3" by (simp add: rx_eval)
  have b1: "basename ?f1 (extname ?f1) = ?b1" by (simp add: name_eval)
  have b2: "basename ?f2 (extname ?f2) = ?b2" by (simp add: name_eval)
  have b3: "basename ?f3 (extname ?f3) = ?b3" by (simp add: name_eval)
  have d1: "matchDMY (drop 8 ?b1) = Some (js ''12'', js ''01'', js ''2023'')"
    by (simp add: date_eval)
  have y1: "matchYMD (drop 14 ?b1) = Some (js ''2023'', js ''20'', js ''22'')"
    by (simp add: date_eval)
  have n1: "list_all (\<lambda>j. matchYMD (drop j ?b1) = None) [0..<14]"
    by (simp add: upt_rec date_eval)
  have l1: "14 \<le> length ?b1" by (simp add: js_def)
  from n1 have n1': "\<forall>j<14. matchYMD (drop j ?b1) = None" by (simp add: list_all_iff)
  have e1: "extractDateFromFile ?p ?n ?f1 None = js ''2023'' @ js ''20'' @ js ''22''"
    using th[where fileName = ?f1 and mtime = None, THEN conjunct2, THEN conjunct2,
             THEN conjunct1, rule_format, of 14 "js ''2023''" "js ''20''" "js ''22''"]
      l1 y1 n1' unfolding b1 by blast
  have n2: "list_all (\<lambda>j. matchYMD (drop j ?b2) = None) [0..<19]"
    by (simp add: upt_rec date_eval)
  have len2: "length ?b2 = 18" by (simp add: js_def)
  from n2 have n2': "\<forall>j\<le>length ?b2. matchYMD (drop j ?b2) = None"
    unfolding len2 by (simp add: list_all_iff)
  have d2: "matchDMY (drop 8 ?b2) = Some (js ''15'', js ''12'', js ''2023'')"
    by (simp add: date_eval)
  have nd2: "list_all (\<lambda>j. matchDMY (drop j ?b2) = None) [0..<8]"
    by (simp add: upt_rec date_eval)
  from nd2 have nd2': "\<forall>j<8. matchDMY (drop j ?b2) = None" by (simp add: list_all_iff)
  have l2: "8 \<le> length ?b2" by (simp add: js_def)
  have e2: "extractDateFromFile ?p ?n ?f2 None = js ''2023'' @ js ''15'' @ js ''12''"
    using th[where fileName = ?f2 and mtime = None, THEN conjunct2, THEN conjunct2,
             THEN conjunct2, THEN conjunct1, rule_format,
             of 8 "js ''15''" "js ''12''" "js ''2023''"]
      n2' l2 d2 nd2' unfolding b2 by blast
  have n3: "list_all (\<lambda>j. matchYMD (drop j ?b3) = None \<and> matchDMY (drop j ?b3) = None) [0..<9]"
    by (simp add: upt_rec date_eval)
  have len3: "length ?b3 = 8" by (simp add: js_def)
  from n3 have n3': "\<forall>j\<le>length ?b3. matchYMD (drop j ?b3) = None \<and> matchDMY (drop j ?b3) = None"
    unfolding len3 by (simp add: list_all_iff)
  have fmt: "formatDate (LocalDate 2024 0 8) = js ''20240108''"
    "formatDate (LocalDate 2025 5 1) = js ''20250601''"
    by (simp_all add: intToString_def padStart2_def natToString.simps js_def)
  have e3: "extractDateFromFile ?p ?n ?f3 (Some (js ''2024-01-08T10:00:00.000Z'')) = js ''20240108''"
    using th[where fileName = ?f3 and mtime = "Some (js ''2024-01-08T10:00:00.000Z'')",
             THEN conjunct2, THEN conjunct2, THEN conjunct2, THEN conjunct2, THEN conjunct1]
      n3' fmt unfolding b3 by (simp add: js_def)
  have e4: "extractDateFromFile ?p ?n ?f3 None = js ''20250601''"
    using th[where fileName = ?f3 and mtime = None,
             THEN conjunct2, THEN conjunct2, THEN conjunct2, THEN conjunct2, THEN conjunct1]
      n3' fmt unfolding b3 by simp
  have e5: "length (formatDate (LocalDate 2024 0 8)) = 8"
    using th[where fileName = ?f3 and mtime = None] by simp
  have j1: "js ''2023'' @ js ''20'' @ js ''22'' = js ''20232022''"
    "js ''2023'' @ js ''15'' @ js ''12'' = js ''20231512''" by (simp_all add: js_def)
  from m1 b1 d1 y1 n1 e1 m2 b2 n2 d2 nd2 e2 m3 b3 n3 e3 e4 e5 show ?thesis
    unfolding j1 by (intro conjI)
qed

text \<open>
  The token is not always 8 digits, and the second form is not read as day-month-year.
  Both names are messy names, so both files get a new name. With a modification date in
  the year 10000 the token of \<^verbatim>\<open>untitled.txt\<close> has 9 digits, and with a modification time
  that is not a date it is \<^verbatim>\<open>NaNNaNNaN\<close>; the new name starts with it. The name
  \<^verbatim>\<open>Copy of 15-12-2023.pdf\<close> gives \<^verbatim>\<open>20231512\<close>, which is not the 15th of December 2023
  written as year, month, day.
\<close>

theorem date_token_counterexample:
  "isMessyFileName (js ''untitled.txt'') \<and>
   extractDateFromFile (\<lambda>t. LocalDate 10000 0 1) (LocalDate 2024 0 8) (js ''untitled.txt'')
     (Some (js ''+010000-01-01T00:00:00.000Z'')) = js ''100000101'' \<and>
   length (extractDateFromFile (\<lambda>t. LocalDate 10000 0 1) (LocalDate 2024 0 8) (js ''untitled.txt'')
             (Some (js ''+010000-01-01T00:00:00.000Z''))) \<noteq> 8 \<and>
   extractDateFromFile (\<lambda>t. InvalidDate) (LocalDate 2024 0 8) (js ''untitled.txt'')
     (Some (js ''yesterday'')) = js ''NaNNaNNaN'' \<and>
   r_needsRename (suggest
     \<lparr> currentUser = js ''user'', parseDate = (\<lambda>t. LocalDate 10000 0 1),
        now = LocalDate 2024 0 8, isOpencodeAvailable = False, aiFiles = None \<rparr> []
     (\<lparr> name = js ''untitled.txt'', path = js ''/d/untitled.txt'', extension = js ''.txt'',
         size_bytes = 10, isDirectory = Some False, isSymlink = Some False,
         modifiedTime = Some (js ''+010000-01-01T00:00:00.000Z'') \<rparr>, cat_document)) \<and>
   suggestedName (suggest
     \<lparr> currentUser = js ''user'', parseDate = (\<lambda>t. LocalDate 10000 0 1),
        now = LocalDate 2024 0 8, isOpencodeAvailable = False, aiFiles = None \<rparr> []
     (\<lparr> name = js ''untitled.txt'', path = js ''/d/untitled.txt'', extension = js ''.txt'',
         size_bytes = 10, isDirectory = Some False, isSymlink = Some False,
         modifiedTime = Some (js ''+010000-01-01T00:00:00.000Z'') \<rparr>, cat_document))
     = js ''100000101_user_untitled.txt'' \<and>
   isMessyFileName (js ''Copy of 15-12-2023.pdf'') \<and>
   extractDateFromFile (\<lambda>t. InvalidDate) (LocalDate 2024 0 8) (js ''Copy of 15-12-2023.pdf'') None
     = js ''20231512'' \<and>
   js ''20231512'' \<noteq> js ''20231215''"
proof -
  have m1: "isMessyFileName (js ''untitled.txt'')" by (simp add: rx_eval)
  have m2: "isMessyFileName (js ''Copy of 15-12-2023.pdf'')" by (simp add: rx_eval)
  have s1: "\<not> isShortcutOrLink (js ''untitled.txt'')"
    by (simp add: isShortcutOrLink_def shortcutExtensions_def lower_eval name_eval)
  have e1: "extractDateFromFile (\<lambda>t. LocalDate 10000 0 1) (LocalDate 2024 0 8) (js ''untitled.txt'')
     (Some (js ''+010000-01-01T00:00:00.000Z'')) = js ''100000101''"
    by (simp add: date_eval intToString_def padStart2_def natToString.simps)
  have e2: "extractDateFromFile (\<lambda>t. InvalidDate) (LocalDate 2024 0 8) (js ''untitled.txt'')
     (Some (js ''yesterday'')) = js ''NaNNaNNaN''"
    by (simp add: date_eval intToString_def padStart2_def natToString.simps)
  have e3: "extractDateFromFile (\<lambda>t. InvalidDate) (LocalDate 2024 0 8)
              (js ''Copy of 15-12-2023.pdf'') None = js ''20231512''"
    by (simp add: date_eval)
  have c: "cleanFileName (js ''untitled.txt'') = js ''untitled''"
    by (simp add: cleanFileName_def trim_def rx_eval replaceFirst_def)
  have d: "isDocumentFile (js ''.txt'')" by (simp add: isDocumentFile_def lower_eval js_def)
  have r: "r_needsRename (suggest
     \<lparr> currentUser = js ''user'', parseDate = (\<lambda>t. LocalDate 10000 0 1),
        now = LocalDate 2024 0 8, isOpencodeAvailable = False, aiFiles = None \<rparr> []
     (\<lparr> name = js ''untitled.txt'', path = js ''/d/untitled.txt'', extension = js ''.txt'',
         size_bytes = 10, isDirectory = Some False, isSymlink = Some False,
         modifiedTime = Some (js ''+010000-01-01T00:00:00.000Z'') \<rparr>, cat_document))"
    using m1 s1 by (simp add: suggest_def Let_def isDir_def)
  have n: "suggestedName (suggest
     \<lparr> currentUser = js ''user'', parseDate = (\<lambda>t. LocalDate 10000 0 1),
        now = LocalDate 2024 0 8, isOpencodeAvailable = False, aiFiles = None \<rparr> []
     (\<lparr> name = js ''untitled.txt'', path = js ''/d/untitled.txt'', extension = js ''.txt'',
         size_bytes = 10, isDirectory = Some False, isSymlink = Some False,
         modifiedTime = Some (js ''+010000-01-01T00:00:00.000Z'') \<rparr>, cat_document))
     = js ''100000101'' @ js ''_'' @ js ''user'' @ js ''_'' @ js ''untitled'' @ js ''.txt''"
  proof -
    have ne: "js ''untitled'' \<noteq> []" by (simp add: js_def)
    show ?thesis using m1 s1 d e1 c ne by (simp add: suggest_def Let_def isDir_def)
  qed
  have l: "length (js ''100000101'') \<noteq> 8" "js ''20231512'' \<noteq> js ''20231215''"
    "js ''100000101'' @ js ''_'' @ js ''user'' @ js ''_'' @ js ''untitled'' @ js ''.txt''
       = js ''100000101_user_untitled.txt''"
    by (simp_all add: js_def)
  from m1 e1 l e2 r n m2 e3 show ?thesis by simp
qed

section \<open>Move-worthiness threshold\<close>

definition countOf :: "(jstring \<times> nat) list \<Rightarrow> jstring \<Rightarrow> nat" where
  "countOf m c = (case map_of m c of None \<Rightarrow> 0 | Some n \<Rightarrow> n)"

lemma bump_keys: "fst ` set (bump m c) = insert c (fst ` set m)"
  by (induction m c rule: bump.induct) auto

lemma bump_distinct: "distinct (map fst m) \<Longrightarrow> distinct (map fst (bump m c))"
proof (induction m c rule: bump.induct)
  case (1 category)
  then show ?case by simp
next
  case (2 k n rest category)
  then show ?case using bump_keys[of rest category] by auto
qed

lemma bump_countOf:
  "countOf (bump m c) c' = (if c' = c then Suc (countOf m c') else countOf m c')"
  by (induction m c rule: bump.induct) (auto simp: countOf_def)

lemma bump_positive: "\<forall>(k, n) \<in> set m. 0 < n \<Longrightarrow> \<forall>(k, n) \<in> set (bump m c). 0 < n"
  by (induction m c rule: bump.induct) auto

lemma tally_fold:
  assumes "distinct (map fst m)" "\<forall>(k, n) \<in> set m. 0 < n"
  shows "distinct (map fst (fold (\<lambda>(file, category) categoryCount.
             if isDir file then categoryCount else bump categoryCount category) cf m)) \<and>
         (\<forall>(k, n) \<in> set (fold (\<lambda>(file, category) categoryCount.
             if isDir file then categoryCount else bump categoryCount category) cf m). 0 < n) \<and>
         (\<forall>c. countOf (fold (\<lambda>(file, category) categoryCount.
             if isDir file then categoryCount else bump categoryCount category) cf m) c =
           countOf m c + length (filter (\<lambda>(file, category). \<not> isDir file \<and> category = c) cf))"
  using assms
proof (induction cf arbitrary: m)
  case Nil
  then show ?case by simp
next
  case (Cons x cf)
  obtain fl category where x: "x = (fl, category)" by (cases x)
  show ?case
  proof (cases "isDir fl")
    case True
    with Cons x show ?thesis by simp
  next
    case False
    have d: "distinct (map fst (bump m category))" using Cons.prems bump_distinct by blast
    have p: "\<forall>(k, n) \<in> set (bump m category). 0 < n" using Cons.prems bump_positive by blast
    from Cons.IH[OF d p] False x show ?thesis
      by (simp add: bump_countOf)
  qed
qed

lemma tally_count:
  "countOf (tally (map (\<lambda>file. (file, classify file)) files)) c =
   length (filter (\<lambda>file. \<not> isDir file \<and> classify file = c) files)"
proof -
  have "countOf (tally (map (\<lambda>file. (file, classify file)) files)) c =
        length (filter (\<lambda>(file, category). \<not> isDir file \<and> category = c)
                  (map (\<lambda>file. (file, classify file)) files))"
    unfolding tally_def using tally_fold[of "[]"] by (simp add: countOf_def)
  also have "\<dots> = length (filter (\<lambda>file. \<not> isDir file \<and> classify file = c) files)"
    by (simp add: filter_map comp_def)
  finally show ?thesis .
qed

lemma decideFolders_iff:
  assumes "distinct (map fst m)"
  shows "c \<in> set (decideFolders m) \<longleftrightarrow> 3 \<le> countOf m c \<and> c \<noteq> cat_shortcut \<and> c \<noteq> cat_other"
proof -
  have "c \<in> set (decideFolders m) \<longleftrightarrow>
        (\<exists>n. (c, n) \<in> set m \<and> 3 \<le> n \<and> c \<noteq> cat_shortcut \<and> c \<noteq> cat_other)"
    by (force simp: decideFolders_def)
  also have "\<dots> \<longleftrightarrow> (\<exists>n. map_of m c = Some n \<and> 3 \<le> n \<and> c \<noteq> cat_shortcut \<and> c \<noteq> cat_other)"
    using assms by (auto dest: map_of_SomeD)
  also have "\<dots> \<longleftrightarrow> 3 \<le> countOf m c \<and> c \<noteq> cat_shortcut \<and> c \<noteq> cat_other"
    by (auto simp: countOf_def split: option.splits)
  finally show ?thesis .
qed

lemma categoriesNeedingFolders_iff:
  "c \<in> set (categoriesNeedingFolders (analyzeFiles env files)) \<longleftrightarrow>
   c \<noteq> cat_shortcut \<and> c \<noteq> cat_other \<and>
   3 \<le> length (filter (\<lambda>file. \<not> isDir file \<and> classify file = c) files)"
proof -
  have d: "distinct (map fst (tally (map (\<lambda>file. (file, classify file)) files)))"
    unfolding tally_def using tally_fold[of "[]"] by simp
  show ?thesis
    using decideFolders_iff[OF d, of c] tally_count[of files c]
    by (auto simp: analyzeFiles_def Let_def)
qed

lemma categoriesNeedingFolders_distinct:
  "distinct (categoriesNeedingFolders (analyzeFiles env files))"
proof -
  have d: "distinct (map fst (tally (map (\<lambda>file. (file, classify file)) files)))"
    unfolding tally_def using tally_fold[of "[]"] by simp
  thus ?thesis
    by (simp add: analyzeFiles_def Let_def decideFolders_def distinct_map_filter)
qed

lemmas sample_classify =
  classify_def scanned_def isDir_def classify_eval screenshotImageExtensions_def
  startsWith_def extCategoryMap_def

lemma sample_shortcut:
  "\<not> isShortcutOrLink (name (scanned (js ''a'') (js ''.jpg'')))"
  "\<not> isShortcutOrLink (name (scanned (js ''b'') (js ''.jpg'')))"
  "\<not> isShortcutOrLink (name (scanned (js ''c'') (js ''.jpg'')))"
  by (simp_all add: scanned_def classify_eval)

lemma sample_category:
  "classify (scanned (js ''a'') (js ''.jpg'')) = cat_image"
  "classify (scanned (js ''b'') (js ''.jpg'')) = cat_image"
  "classify (scanned (js ''c'') (js ''.jpg'')) = cat_image"
  by (simp_all add: sample_classify)

text \<open>
  The two passes of the analysis, by the category that the classifier gives: a category
  other than shortcut and other is among the categories that get a folder exactly when at
  least 3 of the files that are not directories are classified into it; shortcut and
  other never are. A file that is neither a directory nor a shortcut gets \<open>needsMove\<close>
  exactly when the category of the classifier gets a folder, and a directory or shortcut
  never does. With the two images \<^verbatim>\<open>a.jpg\<close> and \<^verbatim>\<open>b.jpg\<close> no folder is decided and
  neither is moved; with \<^verbatim>\<open>c.jpg\<close> added the image folder is decided and all three are
  moved.
\<close>

theorem move_worthiness_threshold:
  "(\<forall>c. c \<noteq> cat_shortcut \<and> c \<noteq> cat_other \<longrightarrow>
      (c \<in> set (categoriesNeedingFolders (analyzeFiles env files)) \<longleftrightarrow>
       3 \<le> length (filter (\<lambda>file. \<not> isDir file \<and> classify file = c) files))) \<and>
   cat_shortcut \<notin> set (categoriesNeedingFolders (analyzeFiles env files)) \<and>
   cat_other \<notin> set (categoriesNeedingFolders (analyzeFiles env files)) \<and>
   length (results (analyzeFiles env files)) = length files \<and>
   (\<forall>i. i < length files \<and> \<not> isDir (files ! i) \<and>
        \<not> (isShortcutOrLink (name (files ! i)) \<or> isSymlink (files ! i) = Some True) \<longrightarrow>
      (r_needsMove (results (analyzeFiles env files) ! i) \<longleftrightarrow>
         classify (files ! i) \<noteq> cat_shortcut \<and> classify (files ! i) \<noteq> cat_other \<and>
         3 \<le> length (filter (\<lambda>file. \<not> isDir file \<and> classify file = classify (files ! i)) files))) \<and>
   (\<forall>i. i < length files \<and>
        (isDir (files ! i) \<or> isShortcutOrLink (name (files ! i)) \<or>
         isSymlink (files ! i) = Some True) \<longrightarrow>
      \<not> r_needsMove (results (analyzeFiles env files) ! i)) \<and>
   categoriesNeedingFolders
     (analyzeFiles env [scanned (js ''a'') (js ''.jpg''), scanned (js ''b'') (js ''.jpg'')]) = [] \<and>
   map r_needsMove (results
     (analyzeFiles env [scanned (js ''a'') (js ''.jpg''), scanned (js ''b'') (js ''.jpg'')]))
     = [False, False] \<and>
   categoriesNeedingFolders
     (analyzeFiles env [scanned (js ''a'') (js ''.jpg''), scanned (js ''b'') (js ''.jpg''),
                        scanned (js ''c'') (js ''.jpg'')]) = [cat_image] \<and>
   map r_needsMove (results
     (analyzeFiles env [scanned (js ''a'') (js ''.jpg''), scanned (js ''b'') (js ''.jpg''),
                        scanned (js ''c'') (js ''.jpg'')]))
     = [True, True, True]"
proof -
  let ?a = "analyzeFiles env files"
  have nm: "\<And>i. i < length files \<Longrightarrow>
      r_needsMove (results ?a ! i) =
        (\<not> (isShortcutOrLink (name (files ! i)) \<or> isSymlink (files ! i) = Some True) \<and>
         \<not> isDir (files ! i) \<and> classify (files ! i) \<in> set (categoriesNeedingFolders ?a))"
  proof -
    fix i assume i: "i < length files"
    have "r_needsMove (results ?a ! i) = map r_needsMove (results ?a) ! i"
      using i by (simp add: analyzeFiles_length)
    also have "\<dots> = (\<not> (isShortcutOrLink (name (files ! i)) \<or> isSymlink (files ! i) = Some True) \<and>
         \<not> isDir (files ! i) \<and> classify (files ! i) \<in> set (categoriesNeedingFolders ?a))"
      using i by (simp add: analyzeFiles_needsMove)
    finally show "r_needsMove (results ?a ! i) =
        (\<not> (isShortcutOrLink (name (files ! i)) \<or> isSymlink (files ! i) = Some True) \<and>
         \<not> isDir (files ! i) \<and> classify (files ! i) \<in> set (categoriesNeedingFolders ?a))" .
  qed
  have c1: "\<forall>c. c \<noteq> cat_shortcut \<and> c \<noteq> cat_other \<longrightarrow>
      (c \<in> set (categoriesNeedingFolders ?a) \<longleftrightarrow>
       3 \<le> length (filter (\<lambda>file. \<not> isDir file \<and> classify file = c) files))"
    by (simp add: categoriesNeedingFolders_iff)
  have c2: "cat_shortcut \<notin> set (categoriesNeedingFolders ?a)"
    by (simp add: categoriesNeedingFolders_iff)
  have c3: "cat_other \<notin> set (categoriesNeedingFolders ?a)"
    by (simp add: categoriesNeedingFolders_iff)
  have c4: "length (results ?a) = length files" by (rule analyzeFiles_length)
  have c5: "\<forall>i. i < length files \<and> \<not> isDir (files ! i) \<and>
        \<not> (isShortcutOrLink (name (files ! i)) \<or> isSymlink (files ! i) = Some True) \<longrightarrow>
      (r_needsMove (results ?a ! i) \<longleftrightarrow>
         classify (files ! i) \<noteq> cat_shortcut \<and> classify (files ! i) \<noteq> cat_other \<and>
         3 \<le> length (filter (\<lambda>file. \<not> isDir file \<and> classify file = classify (files ! i)) files))"
    using nm by (auto simp: categoriesNeedingFolders_iff)
  have c6: "\<forall>i. i < length files \<and>
        (isDir (files ! i) \<or> isShortcutOrLink (name (files ! i)) \<or>
         isSymlink (files ! i) = Some True) \<longrightarrow>
      \<not> r_needsMove (results ?a ! i)"
    using nm by auto
  let ?f2 = "[scanned (js ''a'') (js ''.jpg''), scanned (js ''b'') (js ''.jpg'')]"
  let ?f3 = "[scanned (js ''a'') (js ''.jpg''), scanned (js ''b'') (js ''.jpg''),
              scanned (js ''c'') (js ''.jpg'')]"
  have nd: "\<not> isDir (scanned b e)" for b e by (simp add: isDir_def scanned_def)
  have sl: "isSymlink (scanned b e) \<noteq> Some True" for b e by (simp add: scanned_def)
  have e1: "categoriesNeedingFolders (analyzeFiles env ?f2) = []"
    by (simp add: analyzeFiles_def Let_def tally_def decideFolders_def sample_category nd)
  have e3: "categoriesNeedingFolders (analyzeFiles env ?f3) = [cat_image]"
    by (simp add: analyzeFiles_def Let_def tally_def decideFolders_def sample_category nd)
  have e2: "map r_needsMove (results (analyzeFiles env ?f2)) = [False, False]"
    by (simp add: analyzeFiles_needsMove e1)
  have e4: "map r_needsMove (results (analyzeFiles env ?f3)) = [True, True, True]"
    by (simp add: analyzeFiles_needsMove e3 sample_category sample_shortcut nd sl)
  from c1 c2 c3 c4 c5 c6 e1 e2 e3 e4 show ?thesis by blast
qed

theorem move_worthiness_threshold_witness:
  "cat_image \<noteq> cat_shortcut \<and> cat_image \<noteq> cat_other \<and>
   3 \<le> length (filter (\<lambda>file. \<not> isDir file \<and> classify file = cat_image)
     [scanned (js ''a'') (js ''.jpg''), scanned (js ''b'') (js ''.jpg''),
      scanned (js ''c'') (js ''.jpg'')]) \<and>
   cat_image \<in> set (categoriesNeedingFolders (analyzeFiles sampleEnv
     [scanned (js ''a'') (js ''.jpg''), scanned (js ''b'') (js ''.jpg''),
      scanned (js ''c'') (js ''.jpg'')])) \<and>
   r_needsMove (results (analyzeFiles sampleEnv
     [scanned (js ''a'') (js ''.jpg''), scanned (js ''b'') (js ''.jpg''),
      scanned (js ''c'') (js ''.jpg'')]) ! 0)"
proof -
  let ?f3 = "[scanned (js ''a'') (js ''.jpg''), scanned (js ''b'') (js ''.jpg''),
              scanned (js ''c'') (js ''.jpg'')]"
  note th = move_worthiness_threshold[where env = sampleEnv and files = ?f3]
  have nd: "\<not> isDir (scanned b e)" for b e by (simp add: isDir_def scanned_def)
  have sl: "isSymlink (scanned b e) \<noteq> Some True" for b e by (simp add: scanned_def)
  have n: "3 \<le> length (filter (\<lambda>file. \<not> isDir file \<and> classify file = cat_image) ?f3)"
    by (simp add: sample_category nd)
  have a: "cat_image \<in> set (categoriesNeedingFolders (analyzeFiles sampleEnv ?f3))"
    using th[THEN conjunct1, rule_format, of cat_image] n by simp
  have b: "r_needsMove (results (analyzeFiles sampleEnv ?f3) ! 0)"
    using th[THEN conjunct2, THEN conjunct2, THEN conjunct2, THEN conjunct2, THEN conjunct1,
             rule_format, of 0] n
    by (simp add: sample_category sample_shortcut nd sl)
  from n a b show ?thesis by simp
qed

section \<open>The plan of the desktop flow\<close>

lemma suggest_fields:
  "r_path (suggest env n fc) = path (fst fc)"
  "r_category (suggest env n fc) = snd fc"
  "r_needsMove (suggest env n fc) =
     (\<not> (isShortcutOrLink (name (fst fc)) \<or> isSymlink (fst fc) = Some True) \<and>
      \<not> isDir (fst fc) \<and> snd fc \<in> set n)"
  "isShortcut (suggest env n fc) =
     (isShortcutOrLink (name (fst fc)) \<or> isSymlink (fst fc) = Some True)"
  by (simp_all add: suggest_def Let_def)

lemma analyzeFiles_local:
  "\<not> isOpencodeAvailable env \<Longrightarrow>
   results (analyzeFiles env files) =
     map (\<lambda>f. suggest env (categoriesNeedingFolders (analyzeFiles env files)) (f, classify f)) files"
  by (simp add: analyzeFiles_def Let_def comp_def)

lemma forAnalysis_fields:
  "name (forAnalysis f) = name f" "path (forAnalysis f) = path f"
  "isDir (forAnalysis f) = isDir f" "isSymlink (forAnalysis f) = None"
  by (simp_all add: forAnalysis_def isDir_def)

lemma forAnalysis_classify:
  "isSymlink f \<noteq> Some True \<Longrightarrow> classify (forAnalysis f) = classify f"
  by (simp add: classify_def forAnalysis_fields)

lemma photos_category: "classify (scannedDir (js ''Photos'')) = cat_image"
  by (simp add: classify_def scannedDir_def isDir_def classify_eval codeProjectFolders_def
        folderKeywordRules_def)

lemma xyz_category: "classify (scanned (js ''x'') (js ''.xyz'')) = cat_other"
  by (simp add: sample_classify)

lemma xyz_shortcut: "\<not> isShortcutOrLink (name (scanned (js ''x'') (js ''.xyz'')))"
  by (simp add: scanned_def classify_eval)

lemma sample_flags:
  "\<not> isDir (scanned b e)" "isSymlink (scanned b e) \<noteq> Some True"
  "isDir (scannedDir n)" "isSymlink (scannedDir n) \<noteq> Some True"
  by (simp_all add: scanned_def scannedDir_def isDir_def)

lemma sample_paths:
  "path (scanned b e) = js ''/d/'' @ b @ e" "name (scanned b e) = b @ e"
  "path (scannedDir n) = js ''/d/'' @ n" "name (scannedDir n) = n"
  by (simp_all add: scanned_def scannedDir_def)

lemmas sample_fields = sample_flags sample_paths

lemma photoFolder_analysis:
  "categoriesNeedingFolders (analyzeFiles sampleEnv (map forAnalysis photoFolder)) = []"
  "results (analyzeFiles sampleEnv (map forAnalysis photoFolder)) =
     map (\<lambda>f. suggest sampleEnv [] (forAnalysis f, cat_image)) photoFolder"
proof -
  have c: "map (\<lambda>f. classify (forAnalysis f)) photoFolder = [cat_image, cat_image, cat_image]"
    by (simp add: photoFolder_def forAnalysis_classify sample_fields sample_category
          photos_category)
  show n: "categoriesNeedingFolders (analyzeFiles sampleEnv (map forAnalysis photoFolder)) = []"
    using c
    by (simp add: analyzeFiles_def Let_def tally_def decideFolders_def photoFolder_def
          forAnalysis_fields sample_fields)
  have "\<not> isOpencodeAvailable sampleEnv" by (simp add: sampleEnv_def)
  from analyzeFiles_local[OF this, of "map forAnalysis photoFolder"]
  have r: "results (analyzeFiles sampleEnv (map forAnalysis photoFolder)) =
     map (\<lambda>f. suggest sampleEnv [] (forAnalysis f, classify (forAnalysis f))) photoFolder"
    unfolding n by (simp add: comp_def)
  have "\<forall>f \<in> set photoFolder. classify (forAnalysis f) = cat_image"
    using c by (simp add: photoFolder_def)
  hence "map (\<lambda>f. suggest sampleEnv [] (forAnalysis f, classify (forAnalysis f))) photoFolder =
         map (\<lambda>f. suggest sampleEnv [] (forAnalysis f, cat_image)) photoFolder"
    by (intro map_cong) simp_all
  with r show "results (analyzeFiles sampleEnv (map forAnalysis photoFolder)) =
     map (\<lambda>f. suggest sampleEnv [] (forAnalysis f, cat_image)) photoFolder"
    by simp
qed

lemma photoFolder_items:
  "map fi_category (convertToFileItems photoFolder
      (results (analyzeFiles sampleEnv (map forAnalysis photoFolder))))
     = [cat_image, cat_image, cat_image]"
  "map fi_isDirectory (convertToFileItems photoFolder
      (results (analyzeFiles sampleEnv (map forAnalysis photoFolder))))
     = [False, False, True]"
  "map fi_needsMove (convertToFileItems photoFolder
      (results (analyzeFiles sampleEnv (map forAnalysis photoFolder))))
     = [False, False, False]"
  unfolding photoFolder_analysis
  by (simp_all add: convertToFileItems_def Let_def photoFolder_def suggest_fields
        forAnalysis_fields sample_fields js_def)

lemma generateOrganizePlan_files: "pl_files (generateOrganizePlan files) = files"
  by (simp add: generateOrganizePlan_def Let_def)

lemma image_not_index: "\<not> isArrayIndex cat_image"
  by (simp add: isArrayIndex_def isDigit_def)

lemma photoFolder_plan:
  "pl_categoriesNeedingFolders (desktopPlan sampleEnv photoFolder) = [cat_image]"
proof -
  let ?items = "convertToFileItems photoFolder
                  (results (analyzeFiles sampleEnv (map forAnalysis photoFolder)))"
  have l: "length ?items = 3" by (simp add: convertToFileItems_def photoFolder_def)
  then obtain i1 i2 i3 where i: "?items = [i1, i2, i3]"
    by (cases ?items; cases "tl ?items"; cases "tl (tl ?items)") auto
  with photoFolder_items(1) have c: "fi_category i1 = cat_image" "fi_category i2 = cat_image"
    "fi_category i3 = cat_image" by simp_all
  show ?thesis
    unfolding desktopPlan_def i
    by (simp add: generateOrganizePlan_def Let_def c objectEntries_def image_not_index)
qed

lemma fourFiles_analysis:
  "categoriesNeedingFolders (analyzeFiles aiEnv fourFiles) = [cat_image]"
  "map r_category (results (analyzeFiles aiEnv fourFiles))
     = [cat_image, cat_image, cat_image, cat_image]"
  "map r_needsMove (results (analyzeFiles aiEnv fourFiles)) = [True, True, True, False]"
  "map isShortcut (results (analyzeFiles aiEnv fourFiles)) = [False, False, False, False]"
proof -
  let ?a = "scanned (js ''a'') (js ''.jpg'')" and ?b = "scanned (js ''b'') (js ''.jpg'')"
  let ?c = "scanned (js ''c'') (js ''.jpg'')" and ?x = "scanned (js ''x'') (js ''.xyz'')"
  have f: "fourFiles = [?a, ?b, ?c, ?x]" by (simp add: fourFiles_def)
  show n: "categoriesNeedingFolders (analyzeFiles aiEnv fourFiles) = [cat_image]"
    unfolding f
    by (simp add: analyzeFiles_def Let_def tally_def decideFolders_def sample_flags
          sample_category xyz_category)
  have "map r_needsMove (results (analyzeFiles aiEnv fourFiles)) =
        map (\<lambda>file. \<not> (isShortcutOrLink (name file) \<or> isSymlink file = Some True) \<and>
                \<not> isDir file \<and> classify file \<in> set [cat_image]) fourFiles"
    using analyzeFiles_needsMove[of aiEnv fourFiles] unfolding n .
  thus "map r_needsMove (results (analyzeFiles aiEnv fourFiles)) = [True, True, True, False]"
    unfolding f
    by (simp add: sample_shortcut xyz_shortcut sample_flags sample_category xyz_category)
  have ls: "lastSegment (path ?a) \<noteq> js ''x.xyz''" "lastSegment (path ?b) \<noteq> js ''x.xyz''"
    "lastSegment (path ?c) \<noteq> js ''x.xyz''" "lastSegment (path ?x) = js ''x.xyz''"
    by (simp_all add: sample_paths lastSegment_def js_def)
  have ai: "isOpencodeAvailable aiEnv"
    "aiFiles aiEnv = Some [(js ''x.xyz'', cat_image, js ''photo'')]"
    by (simp_all add: aiEnv_def)
  have "results (analyzeFiles aiEnv fourFiles) =
        mergeAI (map (\<lambda>f. suggest aiEnv [cat_image] (f, classify f)) fourFiles)
          [(js ''x.xyz'', cat_image, js ''photo'')]"
  proof -
    have "filter (\<lambda>(file, category). \<not> isDir file \<and> category = cat_other)
            (map (\<lambda>file. (file, classify file)) fourFiles) = [(?x, cat_other)]"
      unfolding f by (simp add: sample_flags sample_category xyz_category)
    thus ?thesis
      using n ai by (simp add: analyzeFiles_def Let_def comp_def)
  qed
  hence r: "results (analyzeFiles aiEnv fourFiles) =
        mergeAI [suggest aiEnv [cat_image] (?a, cat_image), suggest aiEnv [cat_image] (?b, cat_image),
                 suggest aiEnv [cat_image] (?c, cat_image), suggest aiEnv [cat_image] (?x, cat_other)]
          [(js ''x.xyz'', cat_image, js ''photo'')]"
    unfolding f by (simp add: sample_category xyz_category)
  show "map r_category (results (analyzeFiles aiEnv fourFiles))
     = [cat_image, cat_image, cat_image, cat_image]"
    unfolding r by (simp add: suggest_fields ls)
  have "map isShortcut (mergeAI rs answer) = map isShortcut rs" for rs answer
    by (induction rs answer rule: mergeAI.induct) (auto simp: updateFirst_map)
  thus "map isShortcut (results (analyzeFiles aiEnv fourFiles)) = [False, False, False, False]"
    unfolding r by (simp add: suggest_fields sample_shortcut xyz_shortcut sample_flags)
qed

text \<open>
  C5, at two inputs. A folder with two images and a directory \<^verbatim>\<open>Photos\<close>: the analysis
  counts 2 image files, decides no folder and moves nothing, but the plan of the desktop
  flow, which counts the directory as well, lists the image category among the categories
  that get a folder, with 2 image files that are not directories and none of them to be
  moved. Three images and a file that the external tool calls an image: the image
  category gets a folder and the fourth file is an image of the result, neither a
  directory nor a shortcut, and is not to be moved.
\<close>

theorem move_worthiness_failing_input:
  "categoriesNeedingFolders (analyzeFiles sampleEnv (map forAnalysis photoFolder)) = [] \<and>
   map fi_category (pl_files (desktopPlan sampleEnv photoFolder))
     = [cat_image, cat_image, cat_image] \<and>
   map fi_isDirectory (pl_files (desktopPlan sampleEnv photoFolder)) = [False, False, True] \<and>
   length (filter (\<lambda>f. \<not> fi_isDirectory f \<and> fi_category f = cat_image)
             (pl_files (desktopPlan sampleEnv photoFolder))) = 2 \<and>
   pl_categoriesNeedingFolders (desktopPlan sampleEnv photoFolder) = [cat_image] \<and>
   map fi_needsMove (pl_files (desktopPlan sampleEnv photoFolder)) = [False, False, False] \<and>
   categoriesNeedingFolders (analyzeFiles aiEnv fourFiles) = [cat_image] \<and>
   map r_category (results (analyzeFiles aiEnv fourFiles))
     = [cat_image, cat_image, cat_image, cat_image] \<and>
   map isDir fourFiles = [False, False, False, False] \<and>
   map isShortcut (results (analyzeFiles aiEnv fourFiles)) = [False, False, False, False] \<and>
   map r_needsMove (results (analyzeFiles aiEnv fourFiles)) = [True, True, True, False]"
proof -
  let ?items = "pl_files (desktopPlan sampleEnv photoFolder)"
  have f: "?items = convertToFileItems photoFolder
                      (results (analyzeFiles sampleEnv (map forAnalysis photoFolder)))"
    by (simp add: desktopPlan_def generateOrganizePlan_files)
  have l: "length ?items = 3" unfolding f by (simp add: convertToFileItems_def photoFolder_def)
  then obtain i1 i2 i3 where i: "?items = [i1, i2, i3]"
    by (cases ?items; cases "tl ?items"; cases "tl (tl ?items)") auto
  from photoFolder_items[folded f] i
  have "length (filter (\<lambda>f. \<not> fi_isDirectory f \<and> fi_category f = cat_image) ?items) = 2"
    by simp
  moreover have "map isDir fourFiles = [False, False, False, False]"
    by (simp add: fourFiles_def sample_flags)
  ultimately show ?thesis
    using photoFolder_analysis(1) photoFolder_items[folded f] photoFolder_plan fourFiles_analysis
    by simp
qed

section \<open>Duplicate groups\<close>

definition valuesOf :: "('k \<times> 'v list) list \<Rightarrow> 'k \<Rightarrow> 'v list" where
  "valuesOf m k = (case map_of m k of None \<Rightarrow> [] | Some vs \<Rightarrow> vs)"

lemma groupPush_keys: "fst ` set (groupPush m k v) = insert k (fst ` set m)"
  by (induction m k v rule: groupPush.induct) auto

lemma groupPush_distinct: "distinct (map fst m) \<Longrightarrow> distinct (map fst (groupPush m k v))"
proof (induction m k v rule: groupPush.induct)
  case (1 key v)
  then show ?case by simp
next
  case (2 k vs rest key v)
  then show ?case using groupPush_keys[of rest key v] by auto
qed

lemma groupPush_valuesOf:
  "valuesOf (groupPush m k v) k' = (if k' = k then valuesOf m k' @ [v] else valuesOf m k')"
  by (induction m k v rule: groupPush.induct) (auto simp: valuesOf_def)

lemma groupPush_nonempty:
  "\<forall>(k, vs) \<in> set m. vs \<noteq> [] \<Longrightarrow> \<forall>(k, vs) \<in> set (groupPush m key v). vs \<noteq> []"
  by (induction m key v rule: groupPush.induct) auto

text \<open>A map built by \<open>groupPush\<close> only: distinct keys, no empty group.\<close>

definition grouped :: "('k \<times> 'v list) list \<Rightarrow> bool" where
  "grouped m \<longleftrightarrow> distinct (map fst m) \<and> (\<forall>(k, vs) \<in> set m. vs \<noteq> [])"

lemma grouped_Nil: "grouped []"
  by (simp add: grouped_def)

lemma grouped_push:
  assumes "grouped m"
  shows "grouped (groupPush m k v)"
proof -
  from assms have d: "distinct (map fst m)" and n: "\<forall>(k, vs) \<in> set m. vs \<noteq> []"
    by (simp_all add: grouped_def)
  from groupPush_distinct[OF d] groupPush_nonempty[OF n] show ?thesis
    by (simp add: grouped_def)
qed

lemma grouped_mem: "grouped m \<Longrightarrow> (k, vs) \<in> set m \<longleftrightarrow> vs \<noteq> [] \<and> valuesOf m k = vs"
proof -
  assume g: "grouped m"
  hence d: "distinct (map fst m)" and ne: "\<forall>(k, vs) \<in> set m. vs \<noteq> []"
    by (auto simp: grouped_def)
  have mem: "\<And>vs'. ((k, vs') \<in> set m) = (map_of m k = Some vs')"
    using d by simp
  show ?thesis
  proof
    assume a: "(k, vs) \<in> set m"
    with ne have "vs \<noteq> []" by auto
    moreover from a mem have "valuesOf m k = vs" by (simp add: valuesOf_def)
    ultimately show "vs \<noteq> [] \<and> valuesOf m k = vs" by simp
  next
    assume a: "vs \<noteq> [] \<and> valuesOf m k = vs"
    hence "map_of m k = Some vs" by (cases "map_of m k") (auto simp: valuesOf_def)
    with mem show "(k, vs) \<in> set m" by simp
  qed
qed

lemma fold_groupPush:
  assumes step: "\<And>x m. step x m = (case keyOf x of Some k \<Rightarrow> groupPush m k x | None \<Rightarrow> m)"
      and "grouped m"
  shows "grouped (fold step xs m) \<and>
         (\<forall>k. valuesOf (fold step xs m) k = valuesOf m k @ filter (\<lambda>x. keyOf x = Some k) xs)"
  using assms(2)
proof (induction xs arbitrary: m)
  case Nil
  then show ?case by simp
next
  case (Cons x xs)
  show ?case
  proof (cases "keyOf x")
    case None
    hence "step x m = m" by (simp add: step)
    with Cons None show ?thesis by simp
  next
    case (Some k)
    hence s: "step x m = groupPush m k x" by (simp add: step)
    have g: "grouped (groupPush m k x)" using Cons.prems by (rule grouped_push)
    from Cons.IH[OF g] Some s show ?thesis
      by (simp add: groupPush_valuesOf)
  qed
qed

lemma sizeGroupsOf_fold:
  "grouped (sizeGroupsOf files) \<and>
   (\<forall>s. valuesOf (sizeGroupsOf files) s =
        valuesOf [] s @ filter (\<lambda>f. (if d_size f = 0 then None else Some (d_size f)) = Some s) files)"
  unfolding sizeGroupsOf_def
  by (rule fold_groupPush[where keyOf = "\<lambda>f. if d_size f = 0 then None else Some (d_size f)"])
     (simp_all add: grouped_Nil)

lemma sizeGroupsOf_grouped: "grouped (sizeGroupsOf files)"
  using sizeGroupsOf_fold by blast

lemma sizeGroupsOf_values:
  "valuesOf (sizeGroupsOf files) s = filter (\<lambda>f. d_size f \<noteq> 0 \<and> d_size f = s) files"
proof -
  have "valuesOf (sizeGroupsOf files) s =
        filter (\<lambda>f. (if d_size f = 0 then None else Some (d_size f)) = Some s) files"
    using sizeGroupsOf_fold[of files] by (simp add: valuesOf_def)
  also have "\<dots> = filter (\<lambda>f. d_size f \<noteq> 0 \<and> d_size f = s) files"
    by (intro filter_cong) auto
  finally show ?thesis .
qed

lemma hashGroup_fold:
  "grouped m \<Longrightarrow>
   grouped (hashGroup calc grp m) \<and>
   (\<forall>h. valuesOf (hashGroup calc grp m) h =
        valuesOf m h @ filter (\<lambda>f. calc (d_path f) = Some h) grp)"
  unfolding hashGroup_def
  by (rule fold_groupPush[where keyOf = "\<lambda>f. calc (d_path f)"]) simp_all

lemma hashGroup_grouped: "grouped m \<Longrightarrow> grouped (hashGroup calc grp m)"
  using hashGroup_fold by blast

lemma hashGroup_values:
  "grouped m \<Longrightarrow>
   valuesOf (hashGroup calc grp m) h = valuesOf m h @ filter (\<lambda>f. calc (d_path f) = Some h) grp"
  using hashGroup_fold by blast

text \<open>The files of a size group that reach hash bucket \<open>h\<close>.\<close>

definition contribution ::
  "(jstring \<Rightarrow> jstring option) \<Rightarrow> jstring \<Rightarrow> nat \<times> dupInput list \<Rightarrow> dupInput list" where
  "contribution calc h sg =
     (if length (snd sg) > 1 then filter (\<lambda>f. calc (d_path f) = Some h) (snd sg) else [])"

lemma hashMap_fold:
  assumes "grouped m"
  shows "grouped (fold (\<lambda>(sz, grp) hashMap.
             if length grp > 1 then hashGroup calc grp hashMap else hashMap) sgs m) \<and>
         (\<forall>h. valuesOf (fold (\<lambda>(sz, grp) hashMap.
             if length grp > 1 then hashGroup calc grp hashMap else hashMap) sgs m) h
               = valuesOf m h @ concat (map (contribution calc h) sgs))"
  using assms
proof (induction sgs arbitrary: m)
  case Nil
  then show ?case by simp
next
  case (Cons sg sgs)
  obtain sz grp where sg: "sg = (sz, grp)" by (cases sg)
  show ?case
  proof (cases "length grp > 1")
    case True
    from Cons.IH[OF hashGroup_grouped[OF Cons.prems, of calc grp]] True sg
    show ?thesis
      by (simp add: hashGroup_values[OF Cons.prems] contribution_def)
  next
    case False
    from Cons.IH[OF Cons.prems] False sg show ?thesis
      by (simp add: contribution_def)
  qed
qed

lemma hashMapOf_grouped: "grouped (hashMapOf calc sgs)"
  unfolding hashMapOf_def using hashMap_fold[OF grouped_Nil] by blast

lemma hashMapOf_values:
  "valuesOf (hashMapOf calc sgs) h = concat (map (contribution calc h) sgs)"
  unfolding hashMapOf_def using hashMap_fold[OF grouped_Nil, of calc sgs]
  by (simp add: valuesOf_def)

lemma markKeep_length: "length (markKeep grp) = length grp"
  by (simp add: markKeep_def)

lemma markKeep_inputs: "map memberInput (markKeep grp) = grp"
  by (rule nth_equalityI) (simp_all add: markKeep_def memberInput_def)

lemma markKeep_isKeep:
  "map isKeep (markKeep grp) = map (\<lambda>i. i = 0) [0..<length grp]"
  by (rule nth_equalityI) (simp_all add: markKeep_def)

lemma upt_is_zero:
  "0 < n \<Longrightarrow> map (\<lambda>i. i = 0) [0..<n] = True # replicate (n - 1) False"
  by (rule nth_equalityI) (auto simp: nth_Cons')

lemma concat_single:
  "distinct (map fst sgs) \<Longrightarrow> (s0, v0) \<in> set sgs \<Longrightarrow>
   (\<forall>sg \<in> set sgs. fst sg \<noteq> s0 \<longrightarrow> F sg = []) \<Longrightarrow>
   concat (map F sgs) = F (s0, v0)"
proof (induction sgs)
  case Nil
  then show ?case by simp
next
  case (Cons sg sgs)
  show ?case
  proof (cases "sg = (s0, v0)")
    case True
    from Cons.prems(1) True have "s0 \<notin> fst ` set sgs" by simp
    hence "\<forall>sg' \<in> set sgs. fst sg' \<noteq> s0" by force
    with Cons.prems have "\<forall>sg' \<in> set sgs. F sg' = []" by auto
    hence "concat (map F sgs) = []" by simp
    with True show ?thesis by simp
  next
    case False
    with Cons.prems have mem: "(s0, v0) \<in> set sgs" by auto
    hence "s0 \<in> fst ` set sgs" by force
    with Cons.prems(1) have "fst sg \<noteq> s0" by auto
    with Cons.prems have "F sg = []" by auto
    moreover from Cons.IH mem Cons.prems have "concat (map F sgs) = F (s0, v0)" by auto
    ultimately show ?thesis by simp
  qed
qed

lemma detectDuplicates_mem:
  assumes "g \<in> set (detectDuplicates calc files)"
  obtains grp where "g = \<lparr> hash = hash g, g_files = markKeep grp \<rparr>" "1 < length grp"
    "grp = concat (map (contribution calc (hash g)) (sizeGroupsOf files))"
proof -
  from assms obtain h grp where
    mem: "(h, grp) \<in> set (hashMapOf calc (sizeGroupsOf files))" and len: "1 < length grp" and
    g: "g = \<lparr> hash = h, g_files = markKeep grp \<rparr>"
    by (auto simp: detectDuplicates_def)
  from mem have "valuesOf (hashMapOf calc (sizeGroupsOf files)) h = grp"
    using grouped_mem[OF hashMapOf_grouped] by blast
  hence "grp = concat (map (contribution calc h) (sizeGroupsOf files))"
    by (simp add: hashMapOf_values)
  with g len that show thesis by simp
qed

lemma contribution_mem:
  assumes "f \<in> set (concat (map (contribution calc h) (sizeGroupsOf files)))"
  shows "calc (d_path f) = Some h \<and> d_size f \<noteq> 0 \<and> f \<in> set files \<and>
         1 < length (filter (\<lambda>f'. d_size f' \<noteq> 0 \<and> d_size f' = d_size f) files)"
proof -
  from assms obtain sg where sg: "sg \<in> set (sizeGroupsOf files)" and f: "f \<in> set (contribution calc h sg)"
    by auto
  obtain s vs where p: "sg = (s, vs)" by (cases sg)
  from sg p have vs: "vs = filter (\<lambda>f. d_size f \<noteq> 0 \<and> d_size f = s) files"
    using grouped_mem[OF sizeGroupsOf_grouped, of s vs files] by (simp add: sizeGroupsOf_values)
  from f p have c: "calc (d_path f) = Some h" and m: "f \<in> set vs" and l: "1 < length vs"
    by (auto simp: contribution_def split: if_splits)
  from m vs have "d_size f = s" by simp
  with c m l vs show ?thesis by auto
qed

lemma bucket_in_input_order:
  assumes same: "\<forall>f \<in> set files. \<forall>f' \<in> set files.
             calc (d_path f) = calc (d_path f') \<and> calc (d_path f) \<noteq> None \<longrightarrow> d_size f = d_size f'"
      and ne: "concat (map (contribution calc h) (sizeGroupsOf files)) \<noteq> []"
  shows "concat (map (contribution calc h) (sizeGroupsOf files)) =
         filter (\<lambda>f. d_size f \<noteq> 0 \<and> calc (d_path f) = Some h) files"
proof -
  let ?sgs = "sizeGroupsOf files"
  from ne obtain f0 where f0: "f0 \<in> set (concat (map (contribution calc h) ?sgs))"
    by (cases "concat (map (contribution calc h) ?sgs)") auto
  from contribution_mem[OF f0] have c0: "calc (d_path f0) = Some h" and z0: "d_size f0 \<noteq> 0"
    and in0: "f0 \<in> set files"
    and big: "1 < length (filter (\<lambda>f'. d_size f' \<noteq> 0 \<and> d_size f' = d_size f0) files)"
    by auto
  let ?s0 = "d_size f0"
  let ?v0 = "filter (\<lambda>f. d_size f \<noteq> 0 \<and> d_size f = ?s0) files"
  have sz: "\<And>f. f \<in> set files \<Longrightarrow> calc (d_path f) = Some h \<Longrightarrow> d_size f = ?s0"
    using same in0 c0 by (metis option.distinct(1))
  have v0ne: "?v0 \<noteq> []" using in0 z0 by (auto simp: filter_empty_conv)
  have mem0: "(?s0, ?v0) \<in> set ?sgs"
    using grouped_mem[OF sizeGroupsOf_grouped, of ?s0 ?v0 files] v0ne
    by (simp add: sizeGroupsOf_values)
  have others: "\<forall>sg \<in> set ?sgs. fst sg \<noteq> ?s0 \<longrightarrow> contribution calc h sg = []"
  proof (intro ballI impI)
    fix sg assume sg: "sg \<in> set ?sgs" and d: "fst sg \<noteq> ?s0"
    obtain s vs where p: "sg = (s, vs)" by (cases sg)
    from sg p have vs: "vs = filter (\<lambda>f. d_size f \<noteq> 0 \<and> d_size f = s) files"
      using grouped_mem[OF sizeGroupsOf_grouped, of s vs files] by (simp add: sizeGroupsOf_values)
    have "filter (\<lambda>f. calc (d_path f) = Some h) vs = []"
      using vs sz d p by (auto simp: filter_empty_conv)
    thus "contribution calc h sg = []" using p by (simp add: contribution_def)
  qed
  have dist: "distinct (map fst ?sgs)"
    using sizeGroupsOf_grouped[of files] by (simp add: grouped_def)
  have "concat (map (contribution calc h) ?sgs) = contribution calc h (?s0, ?v0)"
    using concat_single[OF dist mem0 others] .
  also have "\<dots> = filter (\<lambda>f. calc (d_path f) = Some h) ?v0"
    using big by (simp add: contribution_def)
  also have "\<dots> = filter (\<lambda>f. d_size f \<noteq> 0 \<and> calc (d_path f) = Some h) files"
    using sz z0 by (auto intro: filter_cong)
  finally show ?thesis .
qed

text \<open>The size groups, in the order of the first appearance of their size.\<close>

lemma groupPush_map_fst:
  "map fst (groupPush m k v) = (if k \<in> fst ` set m then map fst m else map fst m @ [k])"
  by (induction m k v rule: groupPush.induct) auto

lemma sizeGroups_keys_fold:
  "map fst (fold (\<lambda>file sizeGroups.
             if d_size file = 0 then sizeGroups else groupPush sizeGroups (d_size file) file)
           files m) =
   map fst m @ firstSeen (filter (\<lambda>s. s \<noteq> 0 \<and> s \<notin> fst ` set m) (map d_size files))"
proof (induction files arbitrary: m)
  case Nil
  then show ?case by simp
next
  case (Cons f files)
  let ?s = "d_size f"
  show ?case
  proof (cases "?s = 0")
    case True
    with Cons[of m] show ?thesis by simp
  next
    case nz: False
    show ?thesis
    proof (cases "?s \<in> fst ` set m")
      case True
      hence k: "fst ` set (groupPush m ?s f) = fst ` set m"
        by (auto simp: groupPush_keys)
      from True have "map fst (groupPush m ?s f) = map fst m" by (simp add: groupPush_map_fst)
      with Cons[of "groupPush m ?s f"] nz True k show ?thesis by simp
    next
      case False
      hence mf: "map fst (groupPush m ?s f) = map fst m @ [?s]" by (simp add: groupPush_map_fst)
      have k: "fst ` set (groupPush m ?s f) = insert ?s (fst ` set m)" by (rule groupPush_keys)
      have "filter (\<lambda>s. s \<noteq> 0 \<and> s \<notin> insert ?s (fst ` set m)) (map d_size files) =
            filter (\<lambda>y. y \<noteq> ?s) (filter (\<lambda>s. s \<noteq> 0 \<and> s \<notin> fst ` set m) (map d_size files))"
        by (auto intro: filter_cong)
      with Cons[of "groupPush m ?s f"] nz False mf k show ?thesis by simp
    qed
  qed
qed

lemma sizeGroupsOf_keys:
  "map fst (sizeGroupsOf files) = firstSeen (filter (\<lambda>s. s \<noteq> 0) (map d_size files))"
  using sizeGroups_keys_fold[of files "[]"] by (simp add: sizeGroupsOf_def)

lemma grouped_as_map:
  assumes "grouped m"
  shows "m = map (\<lambda>k. (k, valuesOf m k)) (map fst m)"
proof -
  have "\<forall>(k, vs) \<in> set m. valuesOf m k = vs"
    using assms grouped_mem[OF assms] by auto
  hence "map (\<lambda>kv. (fst kv, valuesOf m (fst kv))) m = map (\<lambda>kv. kv) m"
    by (intro map_cong) auto
  thus ?thesis by (simp add: comp_def)
qed

lemma firstSeen_set: "set (firstSeen xs) = set xs"
proof (induction xs rule: firstSeen.induct)
  case 1
  then show ?case by simp
next
  case (2 x xs)
  then show ?case by auto
qed

lemma sizeGroupsOf_explicit:
  "sizeGroupsOf files =
     map (\<lambda>s. (s, filter (\<lambda>f. d_size f = s) files))
       (firstSeen (filter (\<lambda>s. s \<noteq> 0) (map d_size files)))"
proof -
  let ?ks = "firstSeen (filter (\<lambda>s. s \<noteq> 0) (map d_size files))"
  have "sizeGroupsOf files = map (\<lambda>k. (k, valuesOf (sizeGroupsOf files) k)) ?ks"
    using grouped_as_map[OF sizeGroupsOf_grouped[of files]] by (simp add: sizeGroupsOf_keys)
  also have "\<dots> = map (\<lambda>s. (s, filter (\<lambda>f. d_size f = s) files)) ?ks"
  proof (rule map_cong[OF refl])
    fix s assume "s \<in> set ?ks"
    hence "s \<noteq> 0" by (simp add: firstSeen_set)
    hence "filter (\<lambda>f. d_size f \<noteq> 0 \<and> d_size f = s) files = filter (\<lambda>f. d_size f = s) files"
      by (auto intro: filter_cong)
    thus "(s, valuesOf (sizeGroupsOf files) s) = (s, filter (\<lambda>f. d_size f = s) files)"
      by (simp add: sizeGroupsOf_values)
  qed
  finally show ?thesis .
qed

lemma concat_map_if:
  "concat (map (\<lambda>s. if P s then f s else []) ks) = concat (map f (filter P ks))"
  by (induction ks) auto

lemma bucket_by_size:
  "concat (map (contribution calc h) (sizeGroupsOf files)) =
   concat (map (\<lambda>s. filter (\<lambda>f. d_size f = s \<and> calc (d_path f) = Some h) files)
     (filter (\<lambda>s. 2 \<le> length (filter (\<lambda>f. d_size f = s) files))
        (firstSeen (filter (\<lambda>s. s \<noteq> 0) (map d_size files)))))"
proof -
  let ?ks = "firstSeen (filter (\<lambda>s. s \<noteq> 0) (map d_size files))"
  let ?big = "\<lambda>s. 2 \<le> length (filter (\<lambda>f. d_size f = s) files)"
  let ?pick = "\<lambda>s. filter (\<lambda>f. d_size f = s \<and> calc (d_path f) = Some h) files"
  have c: "\<And>s. contribution calc h (s, filter (\<lambda>f. d_size f = s) files) =
                (if ?big s then ?pick s else [])"
    by (auto simp: contribution_def intro: filter_cong)
  have "concat (map (contribution calc h) (sizeGroupsOf files)) =
        concat (map (\<lambda>s. if ?big s then ?pick s else []) ?ks)"
    by (simp add: sizeGroupsOf_explicit comp_def c)
  also have "\<dots> = concat (map ?pick (filter ?big ?ks))"
    by (rule concat_map_if)
  finally show ?thesis .
qed


text \<open>
  C6, as the code has it. Every group that duplicate detection emits has at least 2
  members; every member is an input entry of non-zero size whose hash is the hash of the
  group; exactly the first member is marked keep. The members are listed size by size: the
  sizes shared by at least two non-empty input entries, in the order of their first
  appearance in the input, and for each size the entries of that size with the hash of
  the group, in input order. So the keeper is the first member in input order among the
  members of the size that appears first; when files of different sizes never have the
  same hash, as for the hash of what the reported size measures, the members are all the
  non-empty readable input files with that hash, in input order, and the keeper is the
  first of them in the input.
\<close>

theorem duplicate_groups:
  "\<forall>g \<in> set (detectDuplicates calc files).
     2 \<le> length (g_files g) \<and>
     (\<forall>m \<in> set (g_files g).
        calc (m_path m) = Some (hash g) \<and> m_size m \<noteq> 0 \<and> memberInput m \<in> set files) \<and>
     map isKeep (g_files g) = True # replicate (length (g_files g) - 1) False \<and>
     map memberInput (g_files g) =
       concat (map (\<lambda>s. filter (\<lambda>f. d_size f = s \<and> calc (d_path f) = Some (hash g)) files)
         (filter (\<lambda>s. 2 \<le> length (filter (\<lambda>f. d_size f = s) files))
            (firstSeen (filter (\<lambda>s. s \<noteq> 0) (map d_size files))))) \<and>
     ((\<forall>f \<in> set files. \<forall>f' \<in> set files.
          calc (d_path f) = calc (d_path f') \<and> calc (d_path f) \<noteq> None \<longrightarrow> d_size f = d_size f')
      \<longrightarrow> map memberInput (g_files g) =
            filter (\<lambda>f. d_size f \<noteq> 0 \<and> calc (d_path f) = Some (hash g)) files)"
proof
  fix g assume "g \<in> set (detectDuplicates calc files)"
  then obtain grp where g: "g = \<lparr> hash = hash g, g_files = markKeep grp \<rparr>" and len: "1 < length grp"
    and grp: "grp = concat (map (contribution calc (hash g)) (sizeGroupsOf files))"
    by (rule detectDuplicates_mem)
  from g have gf: "g_files g = markKeep grp" by (metis duplicateGroup.select_convs(2))
  have a: "2 \<le> length (g_files g)" using len gf by (simp add: markKeep_length)
  have b: "\<forall>m \<in> set (g_files g).
        calc (m_path m) = Some (hash g) \<and> m_size m \<noteq> 0 \<and> memberInput m \<in> set files"
  proof
    fix m assume "m \<in> set (g_files g)"
    hence "memberInput m \<in> set (map memberInput (markKeep grp))" using gf by simp
    hence "memberInput m \<in> set grp" by (simp only: markKeep_inputs)
    from contribution_mem[OF this[unfolded grp]]
    show "calc (m_path m) = Some (hash g) \<and> m_size m \<noteq> 0 \<and> memberInput m \<in> set files"
      by (simp add: memberInput_def)
  qed
  have c: "map isKeep (g_files g) = True # replicate (length (g_files g) - 1) False"
  proof -
    have "0 < length grp" using len by linarith
    from upt_is_zero[OF this] gf show ?thesis
      by (simp add: markKeep_isKeep markKeep_length)
  qed
  have e: "map memberInput (g_files g) =
       concat (map (\<lambda>s. filter (\<lambda>f. d_size f = s \<and> calc (d_path f) = Some (hash g)) files)
         (filter (\<lambda>s. 2 \<le> length (filter (\<lambda>f. d_size f = s) files))
            (firstSeen (filter (\<lambda>s. s \<noteq> 0) (map d_size files)))))"
    using gf grp bucket_by_size[of calc "hash g" files] by (simp add: markKeep_inputs)
  have d: "(\<forall>f \<in> set files. \<forall>f' \<in> set files.
          calc (d_path f) = calc (d_path f') \<and> calc (d_path f) \<noteq> None \<longrightarrow> d_size f = d_size f')
      \<longrightarrow> map memberInput (g_files g) =
            filter (\<lambda>f. d_size f \<noteq> 0 \<and> calc (d_path f) = Some (hash g)) files"
  proof
    assume same: "\<forall>f \<in> set files. \<forall>f' \<in> set files.
          calc (d_path f) = calc (d_path f') \<and> calc (d_path f) \<noteq> None \<longrightarrow> d_size f = d_size f'"
    have "grp \<noteq> []" using len by (cases grp) simp_all
    hence ne: "concat (map (contribution calc (hash g)) (sizeGroupsOf files)) \<noteq> []"
      unfolding grp .
    from bucket_in_input_order[OF same ne] grp gf
    show "map memberInput (g_files g) =
            filter (\<lambda>f. d_size f \<noteq> 0 \<and> calc (d_path f) = Some (hash g)) files"
      by (simp add: markKeep_inputs)
  qed
  from a b c e d
  show "2 \<le> length (g_files g) \<and>
     (\<forall>m \<in> set (g_files g).
        calc (m_path m) = Some (hash g) \<and> m_size m \<noteq> 0 \<and> memberInput m \<in> set files) \<and>
     map isKeep (g_files g) = True # replicate (length (g_files g) - 1) False \<and>
     map memberInput (g_files g) =
       concat (map (\<lambda>s. filter (\<lambda>f. d_size f = s \<and> calc (d_path f) = Some (hash g)) files)
         (filter (\<lambda>s. 2 \<le> length (filter (\<lambda>f. d_size f = s) files))
            (firstSeen (filter (\<lambda>s. s \<noteq> 0) (map d_size files))))) \<and>
     ((\<forall>f \<in> set files. \<forall>f' \<in> set files.
          calc (d_path f) = calc (d_path f') \<and> calc (d_path f) \<noteq> None \<longrightarrow> d_size f = d_size f')
      \<longrightarrow> map memberInput (g_files g) =
            filter (\<lambda>f. d_size f \<noteq> 0 \<and> calc (d_path f) = Some (hash g)) files)"
    by blast
qed

lemma sampleDups_result:
  "detectDuplicates sampleHash sampleDups =
     [\<lparr> hash = js ''h1'',
        g_files = [\<lparr> m_path = js ''/d/a.bin'', m_name = js ''a.bin'', m_size = 5, isKeep = True \<rparr>,
                   \<lparr> m_path = js ''/d/b.bin'', m_name = js ''b.bin'', m_size = 5, isKeep = False \<rparr>] \<rparr>]"
  by (simp add: detectDuplicates_def sampleDups_def sizeGroupsOf_def hashMapOf_def hashGroup_def
        markKeep_def dupFile_def sampleHash_def js_def upt_rec)

lemma linkInputs_result:
  "detectDuplicates linkHash linkInputs =
     [\<lparr> hash = js ''hz'',
        g_files = [\<lparr> m_path = js ''/d/z.bin'', m_name = js ''z.bin'', m_size = 7, isKeep = True \<rparr>,
                   \<lparr> m_path = js ''/d/m_link'', m_name = js ''m_link'', m_size = 5,
                      isKeep = False \<rparr>] \<rparr>]"
  by (simp add: detectDuplicates_def linkInputs_def sizeGroupsOf_def hashMapOf_def hashGroup_def
        markKeep_def dupFile_def linkHash_def js_def upt_rec)

theorem duplicate_groups_witness:
  "detectDuplicates sampleHash sampleDups =
     [\<lparr> hash = js ''h1'',
        g_files = [\<lparr> m_path = js ''/d/a.bin'', m_name = js ''a.bin'', m_size = 5, isKeep = True \<rparr>,
                   \<lparr> m_path = js ''/d/b.bin'', m_name = js ''b.bin'', m_size = 5, isKeep = False \<rparr>] \<rparr>] \<and>
   map memberInput
     [\<lparr> m_path = js ''/d/a.bin'', m_name = js ''a.bin'', m_size = 5, isKeep = True \<rparr>,
      \<lparr> m_path = js ''/d/b.bin'', m_name = js ''b.bin'', m_size = 5, isKeep = False \<rparr>]
     = filter (\<lambda>f. d_size f \<noteq> 0 \<and> sampleHash (d_path f) = Some (js ''h1'')) sampleDups \<and>
   firstSeen (filter (\<lambda>s. s \<noteq> 0) (map d_size linkInputs)) = [7, 5] \<and>
   map memberInput
     [\<lparr> m_path = js ''/d/z.bin'', m_name = js ''z.bin'', m_size = 7, isKeep = True \<rparr>,
      \<lparr> m_path = js ''/d/m_link'', m_name = js ''m_link'', m_size = 5, isKeep = False \<rparr>]
     = filter (\<lambda>f. d_size f = 7 \<and> linkHash (d_path f) = Some (js ''hz'')) linkInputs @
       filter (\<lambda>f. d_size f = 5 \<and> linkHash (d_path f) = Some (js ''hz'')) linkInputs"
proof -
  let ?g = "\<lparr> hash = js ''h1'',
        g_files = [\<lparr> m_path = js ''/d/a.bin'', m_name = js ''a.bin'', m_size = 5, isKeep = True \<rparr>,
                   \<lparr> m_path = js ''/d/b.bin'', m_name = js ''b.bin'', m_size = 5, isKeep = False \<rparr>] \<rparr>"
  let ?l = "\<lparr> hash = js ''hz'',
        g_files = [\<lparr> m_path = js ''/d/z.bin'', m_name = js ''z.bin'', m_size = 7, isKeep = True \<rparr>,
                   \<lparr> m_path = js ''/d/m_link'', m_name = js ''m_link'', m_size = 5,
                      isKeep = False \<rparr>] \<rparr>"
  have mem: "?g \<in> set (detectDuplicates sampleHash sampleDups)"
    by (simp add: sampleDups_result)
  have same: "\<forall>f \<in> set sampleDups. \<forall>f' \<in> set sampleDups.
          sampleHash (d_path f) = sampleHash (d_path f') \<and> sampleHash (d_path f) \<noteq> None
          \<longrightarrow> d_size f = d_size f'"
    by (simp add: sampleDups_def dupFile_def sampleHash_def js_def)
  from duplicate_groups[of sampleHash sampleDups, THEN bspec, OF mem] same
  have a: "map memberInput (g_files ?g) =
        filter (\<lambda>f. d_size f \<noteq> 0 \<and> sampleHash (d_path f) = Some (hash ?g)) sampleDups"
    by blast
  have meml: "?l \<in> set (detectDuplicates linkHash linkInputs)"
    by (simp add: linkInputs_result)
  have fs: "firstSeen (filter (\<lambda>s. s \<noteq> 0) (map d_size linkInputs)) = [7, 5]"
    by (simp add: linkInputs_def dupFile_def)
  have big: "filter (\<lambda>s. 2 \<le> length (filter (\<lambda>f. d_size f = s) linkInputs)) [7, 5] = [7, 5]"
    by (simp add: linkInputs_def dupFile_def)
  from duplicate_groups[of linkHash linkInputs, THEN bspec, OF meml]
  have "map memberInput (g_files ?l) =
       concat (map (\<lambda>s. filter (\<lambda>f. d_size f = s \<and> linkHash (d_path f) = Some (hash ?l)) linkInputs)
         (filter (\<lambda>s. 2 \<le> length (filter (\<lambda>f. d_size f = s) linkInputs))
            (firstSeen (filter (\<lambda>s. s \<noteq> 0) (map d_size linkInputs)))))"
    by blast
  hence b: "map memberInput (g_files ?l) =
     filter (\<lambda>f. d_size f = 7 \<and> linkHash (d_path f) = Some (js ''hz'')) linkInputs @
     filter (\<lambda>f. d_size f = 5 \<and> linkHash (d_path f) = Some (js ''hz'')) linkInputs"
    unfolding fs big by simp
  from sampleDups_result a fs b show ?thesis by simp
qed

text \<open>
  The keeper is not always the first member in input order. The link comes before the
  file it points to in the input and has the same hash, but its size group is hashed
  later: the file is the keeper, and the link, which is first in the input, is the one
  offered for removal.
\<close>

theorem duplicate_groups_counterexample:
  "detectDuplicates linkHash linkInputs =
     [\<lparr> hash = js ''hz'',
        g_files = [\<lparr> m_path = js ''/d/z.bin'', m_name = js ''z.bin'', m_size = 7, isKeep = True \<rparr>,
                   \<lparr> m_path = js ''/d/m_link'', m_name = js ''m_link'', m_size = 5,
                      isKeep = False \<rparr>] \<rparr>] \<and>
   filter (\<lambda>f. linkHash (d_path f) = Some (js ''hz'')) linkInputs =
     [dupFile ''m_link'' 5, dupFile ''z.bin'' 7] \<and>
   dupFile ''m_link'' 5 \<noteq> dupFile ''z.bin'' 7"
  by (simp add: detectDuplicates_def linkInputs_def sizeGroupsOf_def hashMapOf_def hashGroup_def
        markKeep_def dupFile_def linkHash_def js_def upt_rec)

section \<open>The conflict loop terminates\<close>

lemma natToString_nonempty: "natToString n \<noteq> []"
  by (subst natToString.simps) simp

lemma natToString_inj: "natToString n = natToString m \<Longrightarrow> n = m"
proof (induction n arbitrary: m rule: natToString.induct)
  case (1 n)
  show ?case
  proof (cases "n < 10")
    case True
    hence n: "natToString n = [48 + n]" by (subst natToString.simps) simp
    show ?thesis
    proof (cases "m < 10")
      case True
      hence "natToString m = [48 + m]" by (subst natToString.simps) simp
      with n "1.prems" show ?thesis by simp
    next
      case False
      hence "natToString m = natToString (m div 10) @ [48 + m mod 10]"
        by (subst natToString.simps) simp
      with n "1.prems" natToString_nonempty[of "m div 10"] show ?thesis
        by (cases "natToString (m div 10)") auto
    qed
  next
    case False
    hence n: "natToString n = natToString (n div 10) @ [48 + n mod 10]"
      by (subst natToString.simps) simp
    show ?thesis
    proof (cases "m < 10")
      case True
      hence "natToString m = [48 + m]" by (subst natToString.simps) simp
      with n "1.prems" natToString_nonempty[of "n div 10"] show ?thesis
        by (cases "natToString (n div 10)") auto
    next
      case m: False
      hence "natToString m = natToString (m div 10) @ [48 + m mod 10]"
        by (subst natToString.simps) simp
      with n "1.prems" have d: "natToString (n div 10) = natToString (m div 10)"
        and r: "n mod 10 = m mod 10" by auto
      from "1.IH"[OF False d] have "n div 10 = m div 10" .
      with r show ?thesis by (metis div_mult_mod_eq)
    qed
  qed
qed

lemma candidate_inj: "candidate t k = candidate t k' \<Longrightarrow> k = k'"
  by (auto simp: candidate_def Let_def dest: natToString_inj)

lemma existsSync_keys: "existsSync fs p \<longleftrightarrow> p \<in> fst ` set fs"
  by (simp add: existsSync_def map_of_eq_None_iff)

lemma finite_candidates: "finite {k. candidate t k \<in> fst ` set fs}"
proof -
  have "inj (candidate t)" by (rule injI) (rule candidate_inj)
  hence "finite (candidate t -` (fst ` set fs))" by (intro finite_vimageI) auto
  thus ?thesis by (simp add: vimage_def)
qed

text \<open>The candidates from \<open>counter\<close> on that are taken.\<close>

definition taken :: "filesystem \<Rightarrow> path \<Rightarrow> nat \<Rightarrow> nat set" where
  "taken fs t c = {k. c \<le> k \<and> candidate t k \<in> fst ` set fs}"

lemma finite_taken: "finite (taken fs t c)"
  unfolding taken_def using finite_candidates[of t fs] by (auto intro: finite_subset)

lemma taken_step:
  "taken fs t c = (if candidate t c \<in> fst ` set fs then insert c (taken fs t (Suc c))
                   else taken fs t (Suc c))"
  unfolding taken_def by (auto simp: le_Suc_eq Suc_le_eq intro: le_neq_implies_less)

lemma taken_card_step:
  "card (taken fs t (Suc c)) + (if candidate t c \<in> fst ` set fs then 1 else 0)
   = card (taken fs t c)"
proof (cases "candidate t c \<in> fst ` set fs")
  case True
  have "c \<notin> taken fs t (Suc c)" by (simp add: taken_def)
  with True finite_taken[of fs t "Suc c"] show ?thesis
    by (subst (2) taken_step) simp
next
  case False
  thus ?thesis by (subst (2) taken_step) simp
qed

termination resolveConflict
proof (relation "measure (\<lambda>(fs, t, f, c). card (taken fs t c) +
                            (if f \<in> fst ` set fs then 1 else 0))")
  show "wf (measure (\<lambda>(fs, t, f, c). card (taken fs t c) +
                            (if f \<in> fst ` set fs then 1 else 0)))" by simp
next
  fix fs :: filesystem and targetPath finalPath :: path and counter :: nat
  assume "existsSync fs finalPath"
  hence f: "finalPath \<in> fst ` set fs" by (simp add: existsSync_keys)
  have "card (taken fs targetPath (counter + 1)) +
        (if candidate targetPath counter \<in> fst ` set fs then 1 else 0)
        = card (taken fs targetPath counter)"
    using taken_card_step[of fs targetPath counter] by simp
  with f show "((fs, targetPath, candidate targetPath counter, counter + 1),
                 fs, targetPath, finalPath, counter)
        \<in> measure (\<lambda>(fs, t, f, c). card (taken fs t c) +
                            (if f \<in> fst ` set fs then 1 else 0))"
    by simp
qed

declare resolveConflict.simps [simp del]

section \<open>Undo on an empty stack\<close>

text \<open>
  C10. With an empty undo stack, undo returns the failure result with the message
  U+6CA1 U+6709 U+53EF U+64A4 U+9500 U+7684 U+64CD U+4F5C, leaves the file
  system as it is and the stack empty. The function is total, so nothing is thrown. The
  same holds of the file service with an empty history, with or without an identifier.
\<close>

theorem undo_empty_stack:
  "undoOrganize (fs, []) = (UndoFailure nothingToUndo, fs, []) \<and>
   serviceUndoOrganize historyId (fs, []) = (Inr nothingToUndo, fs, [])"
  by (simp add: undoOrganize_def serviceUndoOrganize_def Let_def)

section \<open>File system operations on the table\<close>

lemma map_of_remove: "map_of (remove fs p) = (map_of fs)(p := None)"
proof
  fix q
  show "map_of (remove fs p) q = ((map_of fs)(p := None)) q"
    unfolding remove_def by (induction fs) auto
qed

lemma map_of_put: "map_of (put fs p n) = (map_of fs)(p \<mapsto> n)"
  by (rule ext) (simp add: put_def map_of_remove)

lemma hasChildren_iff:
  "hasChildren fs p \<longleftrightarrow> (\<exists>q. strict_prefix p q \<and> map_of fs q \<noteq> None)"
proof -
  have "hasChildren fs p \<longleftrightarrow> (\<exists>q \<in> fst ` set fs. strict_prefix p q)"
    by (force simp: hasChildren_def list_ex_iff)
  also have "\<dots> \<longleftrightarrow> (\<exists>q. strict_prefix p q \<and> map_of fs q \<noteq> None)"
    by (auto simp: map_of_eq_None_iff)
  finally show ?thesis .
qed

lemma isFile_simps [simp]:
  "isFile None = False" "isFile (Some Dir) = False" "isFile (Some (File c)) = True"
  by (simp_all add: isFile_def)

lemma isFile_iff: "isFile n \<longleftrightarrow> (\<exists>c. n = Some (File c))"
  by (auto simp: isFile_def split: option.splits node.splits)

lemma wellFormed_iff:
  "wellFormed fs \<longleftrightarrow>
     \<not> isFile (map_of fs []) \<and>
     (\<forall>p. p \<noteq> [] \<and> map_of fs p \<noteq> None \<longrightarrow> map_of fs (butlast p) = Some Dir)"
proof -
  have "list_all (\<lambda>(p, n). p = [] \<or> map_of fs (butlast p) = Some Dir) fs \<longleftrightarrow>
        (\<forall>p \<in> fst ` set fs. p = [] \<or> map_of fs (butlast p) = Some Dir)"
    by (force simp: list_all_iff)
  also have "\<dots> \<longleftrightarrow> (\<forall>p. p \<noteq> [] \<and> map_of fs p \<noteq> None \<longrightarrow> map_of fs (butlast p) = Some Dir)"
    by (auto simp: map_of_eq_None_iff)
  finally show ?thesis by (simp add: wellFormed_def)
qed

lemma wellFormed_parent:
  "wellFormed fs \<Longrightarrow> map_of fs p \<noteq> None \<Longrightarrow> p \<noteq> [] \<Longrightarrow> map_of fs (butlast p) = Some Dir"
  by (simp add: wellFormed_iff)

lemma wellFormed_prefix_closed:
  "wellFormed fs \<Longrightarrow> map_of fs q \<noteq> None \<Longrightarrow> prefix p q \<Longrightarrow> map_of fs p \<noteq> None"
proof (induction q rule: rev_induct)
  case Nil
  then show ?case by simp
next
  case (snoc x xs)
  show ?case
  proof (cases "p = xs @ [x]")
    case True
    with snoc.prems show ?thesis by simp
  next
    case False
    with snoc.prems(3) have p: "prefix p xs" by (simp add: prefix_snoc)
    from wellFormed_parent[OF snoc.prems(1,2)] have "map_of fs xs = Some Dir" by simp
    with snoc.IH[OF snoc.prems(1) _ p] show ?thesis by simp
  qed
qed

lemma wellFormed_strict_prefix_Dir:
  assumes "wellFormed fs" "map_of fs q \<noteq> None" "strict_prefix p q"
  shows "map_of fs p = Some Dir"
proof -
  from assms(3) obtain x zs where q: "q = p @ x # zs"
    by (auto simp: strict_prefix_def prefix_def) (metis list.exhaust append_Nil2)
  have "prefix (p @ [x]) q" using q by simp
  from wellFormed_prefix_closed[OF assms(1,2) this] have "map_of fs (p @ [x]) \<noteq> None" .
  from wellFormed_parent[OF assms(1) this] show ?thesis by simp
qed

lemma wellFormed_no_children:
  "wellFormed fs \<Longrightarrow> map_of fs p \<noteq> Some Dir \<Longrightarrow> \<not> hasChildren fs p"
proof -
  assume w: "wellFormed fs" and n: "map_of fs p \<noteq> Some Dir"
  show "\<not> hasChildren fs p"
  proof
    assume "hasChildren fs p"
    then obtain q where "strict_prefix p q" "map_of fs q \<noteq> None"
      by (auto simp: hasChildren_iff)
    from wellFormed_strict_prefix_Dir[OF w this(2,1)] n show False by simp
  qed
qed

lemma wellFormed_mapI:
  assumes "wellFormed fs"
      and "\<And>c. map_of fs' [] = Some (File c) \<Longrightarrow> map_of fs [] = Some (File c)"
      and "\<And>p. p \<noteq> [] \<Longrightarrow> map_of fs' p \<noteq> None \<Longrightarrow> map_of fs' (butlast p) = Some Dir"
  shows "wellFormed fs'"
  using assms unfolding wellFormed_iff isFile_iff by blast

lemma butlast_prefix: "prefix (butlast q) q"
  by (cases q rule: rev_cases) auto

text \<open>What \<^verbatim>\<open>mkdir\<close> with \<^verbatim>\<open>recursive\<close> leaves behind.\<close>

lemma map_of_new_dirs:
  "map_of (map (\<lambda>q. (q, Dir)) qs @ fs) r =
     (if r \<in> set qs then Some Dir else map_of fs r)"
  by (induction qs) auto

lemma mkdirRecursive_map:
  assumes "mkdirRecursive fs p = Inr fs'"
  shows "map_of fs' q = (if prefix q p \<and> map_of fs q = None then Some Dir else map_of fs q)"
proof -
  from assms have "fs' = map (\<lambda>q. (q, Dir)) (filter (\<lambda>q. map_of fs q = None) (prefixes p)) @ fs"
    by (auto simp: mkdirRecursive_def split: if_splits)
  thus ?thesis by (simp add: map_of_new_dirs in_set_prefixes del: map_of_append)
qed

lemma mkdirRecursive_no_file_prefix:
  assumes "mkdirRecursive fs p = Inr fs'" "prefix q p"
  shows "\<not> isFile (map_of fs q)"
  using assms by (auto simp: mkdirRecursive_def list_ex_iff in_set_prefixes split: if_splits)

lemma mkdirRecursive_wellFormed:
  assumes "mkdirRecursive fs p = Inr fs'" "wellFormed fs"
  shows "wellFormed fs'"
proof (rule wellFormed_mapI[OF assms(2)])
  fix c assume "map_of fs' [] = Some (File c)"
  thus "map_of fs [] = Some (File c)"
    by (auto simp: mkdirRecursive_map[OF assms(1)] split: if_splits)
next
  fix q assume q: "q \<noteq> []" and e: "map_of fs' q \<noteq> None"
  show "map_of fs' (butlast q) = Some Dir"
  proof (cases "prefix q p")
    case True
    hence pb: "prefix (butlast q) p" using butlast_prefix[of q] by (rule prefix_order.trans[rotated])
    show ?thesis
    proof (cases "map_of fs (butlast q)")
      case None
      with pb show ?thesis by (simp add: mkdirRecursive_map[OF assms(1)])
    next
      case (Some n)
      with mkdirRecursive_no_file_prefix[OF assms(1) pb] have "n = Dir"
        by (cases n) auto
      with Some show ?thesis by (simp add: mkdirRecursive_map[OF assms(1)])
    qed
  next
    case False
    with e have "map_of fs q \<noteq> None" by (simp add: mkdirRecursive_map[OF assms(1)])
    from wellFormed_parent[OF assms(2) this q] show ?thesis
      by (simp add: mkdirRecursive_map[OF assms(1)])
  qed
qed

text \<open>A new leaf: when the parent is a directory, only \<open>p\<close> itself is created.\<close>

lemma mkdirRecursive_leaf:
  assumes "mkdirRecursive fs p = Inr fs'" "wellFormed fs" "map_of fs (butlast p) = Some Dir"
    "p \<noteq> []"
  shows "map_of fs' = (map_of fs)(p := (if map_of fs p = None then Some Dir else map_of fs p))"
proof
  fix q
  show "map_of fs' q = ((map_of fs)(p := (if map_of fs p = None then Some Dir else map_of fs p))) q"
  proof (cases "q = p")
    case True
    thus ?thesis by (simp add: mkdirRecursive_map[OF assms(1)])
  next
    case False
    show ?thesis
    proof (cases "prefix q p")
      case True
      with False have "strict_prefix q p" by (simp add: strict_prefix_def)
      hence "prefix q (butlast p)" using assms(4)
        by (metis append_butlast_last_id prefix_snoc strict_prefix_def)
      from wellFormed_prefix_closed[OF assms(2) _ this] assms(3) have "map_of fs q \<noteq> None" by simp
      with False show ?thesis by (simp add: mkdirRecursive_map[OF assms(1)])
    next
      case False
      with \<open>q \<noteq> p\<close> show ?thesis by (simp add: mkdirRecursive_map[OF assms(1)])
    qed
  qed
qed

section \<open>Single operations and their reversal\<close>

lemma rename_fileD:
  assumes "rename fs a b = Inr fs'" "map_of fs a = Some (File c)" "a \<noteq> b"
  shows "a \<noteq> [] \<and> b \<noteq> [] \<and> map_of fs (butlast b) = Some Dir \<and> map_of fs b \<noteq> Some Dir \<and>
         map_of fs' = (map_of fs)(a := None, b \<mapsto> File c)"
  using assms
  by (auto simp: rename_def parentIsDir_def map_of_put map_of_remove
           split: if_splits option.splits node.splits)

lemma rename_fileI:
  assumes "map_of fs a = Some (File c)" "a \<noteq> b" "a \<noteq> []" "b \<noteq> []"
    "map_of fs (butlast b) = Some Dir" "map_of fs b \<noteq> Some Dir"
  shows "\<exists>fs'. rename fs a b = Inr fs' \<and> map_of fs' = (map_of fs)(a := None, b \<mapsto> File c)"
  using assms
  by (auto simp: rename_def parentIsDir_def map_of_put map_of_remove
           split: if_splits option.splits node.splits)

lemma rename_missing: "map_of fs a = None \<Longrightarrow> rename fs a b = Inl ENOENT"
  by (simp add: rename_def)

lemma copyFileD:
  assumes "copyFile fs a b = Inr fs'"
  shows "\<exists>c. map_of fs a = Some (File c) \<and>
             (if a = b then fs' = fs
              else b \<noteq> [] \<and> map_of fs (butlast b) = Some Dir \<and> map_of fs b \<noteq> Some Dir \<and>
                   map_of fs' = (map_of fs)(b \<mapsto> File c))"
  using assms
  by (auto simp: copyFile_def parentIsDir_def map_of_put
           split: if_splits option.splits node.splits)

lemma copyFileI:
  assumes "map_of fs a = Some (File c)" "a \<noteq> b" "b \<noteq> []"
    "map_of fs (butlast b) = Some Dir" "map_of fs b \<noteq> Some Dir"
  shows "\<exists>fs'. copyFile fs a b = Inr fs' \<and> map_of fs' = (map_of fs)(b \<mapsto> File c)"
  using assms
  by (auto simp: copyFile_def parentIsDir_def map_of_put
           split: if_splits option.splits node.splits)

lemma copyFile_fails: "\<not> isFile (map_of fs a) \<Longrightarrow> \<exists>e. copyFile fs a b = Inl e"
  by (auto simp: copyFile_def isFile_def split: option.splits node.splits)

lemma unlinkD:
  assumes "unlink fs p = Inr fs'"
  shows "(\<exists>c. map_of fs p = Some (File c)) \<and> map_of fs' = (map_of fs)(p := None)"
  using assms by (auto simp: unlink_def map_of_remove split: option.splits node.splits)

lemma unlinkI:
  assumes "map_of fs p = Some (File c)"
  shows "\<exists>fs'. unlink fs p = Inr fs' \<and> map_of fs' = (map_of fs)(p := None)"
  using assms by (auto simp: unlink_def map_of_remove)

lemma rmdirI:
  assumes "map_of fs p = Some Dir" "p \<noteq> []" "\<forall>q. strict_prefix p q \<longrightarrow> map_of fs q = None"
  shows "\<exists>fs'. rmdir fs p = Inr fs' \<and> map_of fs' = (map_of fs)(p := None)"
  using assms by (auto simp: rmdir_def map_of_remove hasChildren_iff)

text \<open>
  \<open>undoes ops before after\<close>: from any table that reads like \<open>after\<close>, undoing \<open>ops\<close> (last
  operation first) succeeds at every step and gives a table that reads like \<open>before\<close>.
\<close>

definition weight :: "operation \<Rightarrow> nat" where
  "weight op' = (if op_type op' = Mkdir then 0 else 1)"

definition undoes :: "operation list \<Rightarrow> filesystem \<Rightarrow> filesystem \<Rightarrow> bool" where
  "undoes ops before after \<longleftrightarrow>
     (\<forall>fsx r. map_of fsx = map_of after \<longrightarrow>
        (\<exists>fsy. undoOperations ops (fsx, r) = (fsy, r + sum_list (map weight ops)) \<and>
               map_of fsy = map_of before))"

lemma undoes_Nil: "undoes [] fs fs"
  by (simp add: undoes_def undoOperations_def)

lemma undoes_append:
  assumes "undoes a s0 s1" "undoes b s1 s2"
  shows "undoes (a @ b) s0 s2"
  unfolding undoes_def
proof (intro allI impI)
  fix fsx r assume "map_of fsx = map_of s2"
  with assms(2) obtain fsm where
    m: "undoOperations b (fsx, r) = (fsm, r + sum_list (map weight b))" "map_of fsm = map_of s1"
    unfolding undoes_def by blast
  with assms(1) obtain fsy where
    y: "undoOperations a (fsm, r + sum_list (map weight b))
          = (fsy, r + sum_list (map weight b) + sum_list (map weight a))"
       "map_of fsy = map_of s0"
    unfolding undoes_def by blast
  have "undoOperations (a @ b) (fsx, r) = undoOperations a (undoOperations b (fsx, r))"
    by (simp add: undoOperations_def)
  with m y show "\<exists>fsy. undoOperations (a @ b) (fsx, r)
                      = (fsy, r + sum_list (map weight (a @ b))) \<and> map_of fsy = map_of s0"
    by (simp add: add.commute add.left_commute)
qed

lemma undoes_single:
  assumes "\<And>fsx r. map_of fsx = map_of after \<Longrightarrow>
             \<exists>fsy. undoOperation op' (fsx, r) = (fsy, r + weight op') \<and> map_of fsy = map_of before"
  shows "undoes [op'] before after"
  using assms by (simp add: undoes_def undoOperations_def)

text \<open>A move or rename of a regular file to a free path is undone exactly.\<close>

lemma undoes_rename:
  assumes w: "wellFormed fs" and r: "rename fs a b = Inr fs'"
      and a: "map_of fs a = Some (File c)" and b: "map_of fs b = None"
      and t: "t = Move \<or> t = Rename"
  shows "undoes [\<lparr> op_type = t, op_from = a, op_to = Some b, backupPath = None \<rparr>] fs fs'"
proof (rule undoes_single)
  fix fsx :: filesystem and r' :: nat
  assume x: "map_of fsx = map_of fs'"
  from a b have ab: "a \<noteq> b" by auto
  from rename_fileD[OF r a ab] have ne: "a \<noteq> []" "b \<noteq> []"
    and m': "map_of fs' = (map_of fs)(a := None, b \<mapsto> File c)" by auto
  from wellFormed_parent[OF w _ ne(1)] a have pa: "map_of fs (butlast a) = Some Dir" by simp
  have "butlast a \<noteq> a" using ne(1) by (metis append_butlast_last_id append_self_conv list.distinct(1))
  moreover have "butlast a \<noteq> b" using pa b by auto
  ultimately have "map_of fsx (butlast a) = Some Dir" using x m' pa by simp
  moreover have "map_of fsx b = Some (File c)" using x m' by simp
  moreover have "map_of fsx a \<noteq> Some Dir" using x m' ab by simp
  ultimately obtain fsy where
    y: "rename fsx b a = Inr fsy" "map_of fsy = (map_of fsx)(b := None, a \<mapsto> File c)"
    using rename_fileI[of fsx b c a] ab ne by metis
  have "map_of fsy = map_of fs"
    using y(2) x m' a b ab by (auto simp: fun_eq_iff)
  with y(1) t
  show "\<exists>fsy. undoOperation \<lparr> op_type = t, op_from = a, op_to = Some b, backupPath = None \<rparr>
                (fsx, r')
              = (fsy, r' + weight \<lparr> op_type = t, op_from = a, op_to = Some b, backupPath = None \<rparr>)
              \<and> map_of fsy = map_of fs"
    by (auto simp: undoOperation_def weight_def)
qed

lemma rename_file_wellFormed:
  assumes w: "wellFormed fs" and r: "rename fs a b = Inr fs'"
      and a: "map_of fs a = Some (File c)" and ab: "a \<noteq> b"
  shows "wellFormed fs'"
proof (rule wellFormed_mapI[OF w])
  from rename_fileD[OF r a ab] have ne: "a \<noteq> []" "b \<noteq> []"
    and pb: "map_of fs (butlast b) = Some Dir" and nb: "map_of fs b \<noteq> Some Dir"
    and m': "map_of fs' = (map_of fs)(a := None, b \<mapsto> File c)" by auto
  { fix c' assume "map_of fs' [] = Some (File c')"
    thus "map_of fs [] = Some (File c')" using m' ne by (simp split: if_splits) }
  { fix p assume p: "p \<noteq> []" and e: "map_of fs' p \<noteq> None"
    have "map_of fs (butlast p) = Some Dir"
    proof (cases "p = b")
      case True thus ?thesis using pb by simp
    next
      case False
      with e m' have "map_of fs p \<noteq> None" by (simp split: if_splits)
      from wellFormed_parent[OF w this p] show ?thesis .
    qed
    moreover from this a have "butlast p \<noteq> a" by auto
    moreover from calculation nb have "butlast p \<noteq> b" by auto
    ultimately show "map_of fs' (butlast p) = Some Dir" using m' by simp }
qed

text \<open>A duplicate relocated to a free backup path is undone exactly.\<close>

lemma undoes_delete:
  assumes w: "wellFormed fs" and c1: "copyFile fs d bp = Inr fs1" and u: "unlink fs1 d = Inr fs2"
      and b: "map_of fs bp = None"
  shows "undoes [\<lparr> op_type = Delete, op_from = d, op_to = None, backupPath = Some bp \<rparr>] fs fs2"
proof (rule undoes_single)
  fix fsx :: filesystem and r' :: nat
  assume x: "map_of fsx = map_of fs2"
  from copyFileD[OF c1] obtain c where d: "map_of fs d = Some (File c)" by blast
  with b have dbp: "d \<noteq> bp" by auto
  from copyFileD[OF c1] d dbp have bne: "bp \<noteq> []"
    and m1: "map_of fs1 = (map_of fs)(bp \<mapsto> File c)" by auto
  from unlinkD[OF u] have m2: "map_of fs2 = (map_of fs1)(d := None)" by simp
  have dne: "d \<noteq> []" using w d by (auto simp: wellFormed_iff isFile_iff)
  from wellFormed_parent[OF w _ dne] d have pd: "map_of fs (butlast d) = Some Dir" by simp
  have "butlast d \<noteq> d" using dne by (metis append_butlast_last_id append_self_conv list.distinct(1))
  moreover have "butlast d \<noteq> bp" using pd b by auto
  ultimately have "map_of fsx (butlast d) = Some Dir" using x m1 m2 pd by simp
  moreover have "map_of fsx bp = Some (File c)" using x m1 m2 dbp by simp
  moreover have "map_of fsx d \<noteq> Some Dir" using x m2 by simp
  ultimately obtain f3 where
    f3: "copyFile fsx bp d = Inr f3" "map_of f3 = (map_of fsx)(d \<mapsto> File c)"
    using copyFileI[of fsx bp c d] dbp dne by metis
  have "map_of f3 bp = Some (File c)" using f3(2) x m1 m2 dbp by simp
  from unlinkI[OF this] obtain f4 where
    f4: "unlink f3 bp = Inr f4" "map_of f4 = (map_of f3)(bp := None)" by blast
  have "map_of f4 = map_of fs"
    using f4(2) f3(2) x m1 m2 d b dbp by (auto simp: fun_eq_iff)
  with f3(1) f4(1)
  show "\<exists>fsy. undoOperation \<lparr> op_type = Delete, op_from = d, op_to = None, backupPath = Some bp \<rparr>
                (fsx, r')
              = (fsy, r' + weight \<lparr> op_type = Delete, op_from = d, op_to = None,
                                    backupPath = Some bp \<rparr>)
              \<and> map_of fsy = map_of fs"
    by (auto simp: undoOperation_def weight_def)
qed

text \<open>A directory created as a new leaf is undone exactly.\<close>

lemma undoes_mkdir:
  assumes w: "wellFormed fs" and m: "mkdirRecursive fs p = Inr fs'"
      and n: "map_of fs p = None" and pd: "map_of fs (butlast p) = Some Dir" and ne: "p \<noteq> []"
  shows "undoes [\<lparr> op_type = Mkdir, op_from = p, op_to = None, backupPath = None \<rparr>] fs fs'"
proof (rule undoes_single)
  fix fsx :: filesystem and r' :: nat
  assume x: "map_of fsx = map_of fs'"
  from mkdirRecursive_leaf[OF m w pd ne] n have m': "map_of fs' = (map_of fs)(p \<mapsto> Dir)" by simp
  have nc: "\<forall>q. strict_prefix p q \<longrightarrow> map_of fsx q = None"
  proof (intro allI impI)
    fix q assume q: "strict_prefix p q"
    show "map_of fsx q = None"
    proof (rule ccontr)
      assume "map_of fsx q \<noteq> None"
      with x m' q have "map_of fs q \<noteq> None" by (auto simp: strict_prefix_def split: if_splits)
      from wellFormed_strict_prefix_Dir[OF w this q] n show False by simp
    qed
  qed
  have "map_of fsx p = Some Dir" using x m' by simp
  from rmdirI[OF this ne nc] obtain fsy where
    y: "rmdir fsx p = Inr fsy" "map_of fsy = (map_of fsx)(p := None)" by blast
  have "map_of fsy = map_of fs" using y(2) x m' n by (auto simp: fun_eq_iff)
  with y(1)
  show "\<exists>fsy. undoOperation \<lparr> op_type = Mkdir, op_from = p, op_to = None, backupPath = None \<rparr>
                (fsx, r')
              = (fsy, r' + weight \<lparr> op_type = Mkdir, op_from = p, op_to = None,
                                    backupPath = None \<rparr>)
              \<and> map_of fsy = map_of fs"
    by (auto simp: undoOperation_def weight_def)
qed

section \<open>Paths\<close>

lemma splitSlash_no_slash: "47 \<notin> set s \<Longrightarrow> splitSlash s = [s]"
  by (induction s) auto

lemma joinPath_segment: "validSegment s \<Longrightarrow> joinPath dir s = dir @ [s]"
  by (simp add: validSegment_def joinPath_def joinStep_def splitSlash_no_slash)

lemma natToString_last_digit: "isDigit (last (natToString n))"
  by (subst natToString.simps) (auto simp: isDigit_def natToString_nonempty)

lemma natToString_no_slash: "47 \<notin> set (natToString n)"
  using natToString_digits[of n] by (auto simp: list_all_iff isDigit_def)

lemma stamped_valid:
  assumes "47 \<notin> set s"
  shows "validSegment (s @ js ''_'' @ natToString n)"
proof -
  let ?x = "s @ js ''_'' @ natToString n"
  have l: "last ?x = last (natToString n)" by (simp add: natToString_nonempty js_def)
  have "?x \<noteq> [46]" "?x \<noteq> [46, 46]"
    using natToString_last_digit[of n] l by (auto simp: isDigit_def)
  moreover have "47 \<notin> set ?x" using assms natToString_no_slash[of n] by (simp add: js_def)
  ultimately show ?thesis by (simp add: validSegment_def js_def)
qed

lemma lastSegment_no_slash: "47 \<notin> set s \<Longrightarrow> lastSegment s = s"
proof -
  assume a: "47 \<notin> set s"
  hence dw: "dropWhile (\<lambda>c. c = 47) (rev s) = rev s" by (cases "rev s") auto
  from a have tw: "takeWhile (\<lambda>c. c \<noteq> 47) (rev s) = rev s"
    by (simp add: takeWhile_eq_all_conv) blast
  show ?thesis unfolding lastSegment_def dw tw by simp
qed

lemma basename_length:
  "47 \<notin> set s \<Longrightarrow> length s \<le> length (basename s e) + length e"
  by (auto simp: basename_def Let_def lastSegment_no_slash)

lemma candidate_dirname: "butlast (candidate t k) = butlast t"
  by (simp add: candidate_def Let_def dirname_def)

lemma candidate_ne_target:
  assumes "47 \<notin> set (basenameOf t)"
  shows "candidate t k \<noteq> t"
proof
  assume e: "candidate t k = t"
  hence ne: "t \<noteq> []" by (auto simp: candidate_def Let_def)
  let ?s = "basenameOf t" and ?e = "extnameSeg (basenameOf t)"
  from ne have s: "?s = last t" by (simp add: basenameOf_def)
  from e have "last (candidate t k) = last t" by simp
  hence "basename ?s ?e @ js ''_'' @ natToString k @ ?e = ?s"
    using s by (simp add: candidate_def Let_def)
  hence "length (basename ?s ?e @ js ''_'' @ natToString k @ ?e) = length ?s"
    by (rule arg_cong)
  hence "length (basename ?s ?e) + 1 + length (natToString k) + length ?e = length ?s"
    by (simp add: js_def)
  with basename_length[OF assms, of ?e] show False by linarith
qed

section \<open>Conflict resolution\<close>

lemma resolveConflict_spec:
  "\<not> existsSync fs (resolveConflict fs t f c) \<and>
   (if existsSync fs f
    then \<exists>k\<ge>c. resolveConflict fs t f c = candidate t k \<and>
                (\<forall>j. c \<le> j \<and> j < k \<longrightarrow> existsSync fs (candidate t j))
    else resolveConflict fs t f c = f)"
proof (induction fs t f c rule: resolveConflict.induct)
  case (1 fs t f c)
  show ?case
  proof (cases "existsSync fs f")
    case False
    thus ?thesis by (simp add: resolveConflict.simps)
  next
    case True
    hence eq: "resolveConflict fs t f c = resolveConflict fs t (candidate t c) (c + 1)"
      by (subst resolveConflict.simps) simp
    note IH = "1.IH"[OF True]
    show ?thesis
    proof (cases "existsSync fs (candidate t c)")
      case False
      with IH have "resolveConflict fs t (candidate t c) (c + 1) = candidate t c" by simp
      with eq False True show ?thesis by auto
    next
      case ex: True
      with IH obtain k where k: "c + 1 \<le> k"
        "resolveConflict fs t (candidate t c) (c + 1) = candidate t k"
        "\<forall>j. c + 1 \<le> j \<and> j < k \<longrightarrow> existsSync fs (candidate t j)" by auto
      have "\<forall>j. c \<le> j \<and> j < k \<longrightarrow> existsSync fs (candidate t j)"
      proof (intro allI impI)
        fix j assume "c \<le> j \<and> j < k"
        thus "existsSync fs (candidate t j)" using ex k(3) by (cases "j = c") auto
      qed
      with k eq IH True show ?thesis by (intro conjI) (simp, force)
    qed
  qed
qed

lemma resolveConflict_free: "\<not> existsSync fs (resolveConflict fs t f c)"
  using resolveConflict_spec by blast

lemma resolveConflict_dirname: "butlast (resolveConflict fs t t c) = butlast t"
  using resolveConflict_spec[of fs t t c] by (auto simp: candidate_dirname split: if_splits)

section \<open>One planned file\<close>

lemma map_of_filter_key:
  "map_of (filter (\<lambda>(k, n). P k) xs) q = (if P q then map_of xs q else None)"
  by (induction xs) auto

lemma moveTree_other:
  assumes "\<not> prefix a q" "\<not> prefix b q"
  shows "map_of (moveTree fs a b) q = map_of fs q"
proof -
  let ?moved = "map (\<lambda>(k, n). (b @ drop (length a) k, n)) (filter (\<lambda>(k, n). prefix a k) fs)"
  have "q \<notin> fst ` set ?moved" using assms(2) by (auto simp: image_iff)
  hence "map_of ?moved q = None" by (simp add: map_of_eq_None_iff)
  moreover have "map_of (filter (\<lambda>(k, n). \<not> prefix a k \<and> \<not> prefix b k) fs) q = map_of fs q"
    using assms map_of_filter_key[of "\<lambda>k. \<not> prefix a k \<and> \<not> prefix b k" fs q] by simp
  ultimately show ?thesis by (simp add: moveTree_def map_add_def)
qed

text \<open>
  A rename to a path that does not exist changes nothing outside the source and what lies
  below it.
\<close>

lemma rename_to_free_keeps:
  assumes w: "wellFormed fs" and r: "rename fs a b = Inr fs'" and b: "map_of fs b = None"
      and q: "map_of fs q \<noteq> None" "\<not> prefix a q"
  shows "map_of fs' q = map_of fs q"
proof -
  have nb: "\<not> prefix b q"
  proof
    assume "prefix b q"
    from wellFormed_prefix_closed[OF w q(1) this] b show False by simp
  qed
  from q(2) have qa: "q \<noteq> a" by auto
  from nb have qb: "q \<noteq> b" by auto
  from r b show ?thesis
    using qa qb q(2) nb
    by (auto simp: rename_def map_of_put map_of_remove moveTree_other
             split: option.splits if_splits node.splits)
qed

lemma processFile_cases:
  assumes "processFile folder file (fs, ops) = (fs', ops')"
  shows "(fs' = fs \<and> ops' = ops) \<or>
         (\<exists>b. \<not> existsSync fs b \<and> butlast b = butlast (targetPathOf folder file) \<and>
              rename fs (p_path file) b = Inr fs' \<and>
              b = resolveConflict fs (targetPathOf folder file) (targetPathOf folder file) 1 \<and>
              ops' = ops @ [\<lparr> op_type = (if needsMove file then Move else Rename),
                               op_from = p_path file, op_to = Some b, backupPath = None \<rparr>])"
proof (cases "targetPathOf folder file \<noteq> p_path file")
  case False
  with assms show ?thesis by (simp add: processFile_def Let_def)
next
  case True
  let ?b = "resolveConflict fs (targetPathOf folder file) (targetPathOf folder file) 1"
  show ?thesis
  proof (cases "rename fs (p_path file) ?b")
    case (Inl e)
    with assms True show ?thesis by (simp add: processFile_def Let_def)
  next
    case (Inr fs2)
    with assms True have "fs' = fs2"
      "ops' = ops @ [\<lparr> op_type = (if needsMove file then Move else Rename),
                       op_from = p_path file, op_to = Some ?b, backupPath = None \<rparr>]"
      by (auto simp: processFile_def Let_def)
    with Inr resolveConflict_free[of fs] resolveConflict_dirname[of fs]
    show ?thesis by blast
  qed
qed

text \<open>
  The step on a source that is not a directory: the tree stays well-formed, no directory
  comes or goes, a regular file can only appear in the directory of the target, and what
  was logged is undone exactly.
\<close>

lemma processFile_step:
  assumes w: "wellFormed fs" and nd: "map_of fs (p_path file) \<noteq> Some Dir"
      and p: "processFile folder file (fs, ops) = (fs', ops')"
  shows "wellFormed fs' \<and>
         (\<forall>q. map_of fs' q = Some Dir \<longleftrightarrow> map_of fs q = Some Dir) \<and>
         (\<forall>q. isFile (map_of fs' q) \<longrightarrow>
              isFile (map_of fs q) \<or> butlast q = butlast (targetPathOf folder file)) \<and>
         (\<exists>new. ops' = ops @ new \<and> undoes new fs fs' \<and>
                (\<forall>o' \<in> set new. op_type o' = Move \<or> op_type o' = Rename))"
  using processFile_cases[OF p]
proof
  assume "fs' = fs \<and> ops' = ops"
  with w undoes_Nil[of fs] show ?thesis by auto
next
  assume "\<exists>b. \<not> existsSync fs b \<and> butlast b = butlast (targetPathOf folder file) \<and>
              rename fs (p_path file) b = Inr fs' \<and>
              b = resolveConflict fs (targetPathOf folder file) (targetPathOf folder file) 1 \<and>
              ops' = ops @ [\<lparr> op_type = (if needsMove file then Move else Rename),
                               op_from = p_path file, op_to = Some b, backupPath = None \<rparr>]"
  then obtain b where b: "map_of fs b = None" "butlast b = butlast (targetPathOf folder file)"
    and r: "rename fs (p_path file) b = Inr fs'"
    and o: "ops' = ops @ [\<lparr> op_type = (if needsMove file then Move else Rename),
                               op_from = p_path file, op_to = Some b, backupPath = None \<rparr>]"
    by (auto simp: existsSync_def)
  let ?a = "p_path file"
  from r nd obtain c where a: "map_of fs ?a = Some (File c)"
    by (cases "map_of fs ?a") (auto simp: rename_def split: node.splits)
  from a b have ab: "?a \<noteq> b" by auto
  from rename_fileD[OF r a ab] have m': "map_of fs' = (map_of fs)(?a := None, b \<mapsto> File c)"
    by simp
  have w': "wellFormed fs'" by (rule rename_file_wellFormed[OF w r a ab])
  have d: "\<forall>q. map_of fs' q = Some Dir \<longleftrightarrow> map_of fs q = Some Dir"
    using m' a b by auto
  have f: "\<forall>q. isFile (map_of fs' q) \<longrightarrow>
              isFile (map_of fs q) \<or> butlast q = butlast (targetPathOf folder file)"
    using m' b by (auto split: if_splits)
  have u: "undoes [\<lparr> op_type = (if needsMove file then Move else Rename),
                     op_from = ?a, op_to = Some b, backupPath = None \<rparr>] fs fs'"
    by (rule undoes_rename[OF w r a b(1)]) simp
  from w' d f u o show ?thesis by auto
qed

lemma processFile_known:
  assumes "targetPathOf folder file \<noteq> p_path file"
      and "resolveConflict fs (targetPathOf folder file) (targetPathOf folder file) 1 = b"
      and "rename fs (p_path file) b = Inr fs'"
  shows "processFile folder file (fs, ops) =
           (fs', ops @ [\<lparr> op_type = (if needsMove file then Move else Rename),
                           op_from = p_path file, op_to = Some b, backupPath = None \<rparr>])"
  using assms by (simp add: processFile_def Let_def)

lemma two_files_same_target:
  assumes w: "wellFormed fs"
      and a1: "map_of fs (p_path f1) = Some (File c1)"
      and a2: "map_of fs (p_path f2) = Some (File c2)"
      and ne: "p_path f1 \<noteq> p_path f2"
      and t1: "targetPathOf folder f1 = t" and t2: "targetPathOf folder f2 = t"
      and free: "\<not> existsSync fs t" "\<not> existsSync fs (candidate t 1)"
      and par: "t \<noteq> []" "map_of fs (butlast t) = Some Dir"
      and seg: "47 \<notin> set (basenameOf t)"
  shows "\<exists>fs'. processFiles folder [f1, f2] (fs, ops) =
           (fs', ops @ [\<lparr> op_type = (if needsMove f1 then Move else Rename),
                           op_from = p_path f1, op_to = Some t, backupPath = None \<rparr>,
                         \<lparr> op_type = (if needsMove f2 then Move else Rename),
                           op_from = p_path f2, op_to = Some (candidate t 1),
                           backupPath = None \<rparr>]) \<and>
         map_of fs' t = Some (File c1) \<and> map_of fs' (candidate t 1) = Some (File c2) \<and>
         map_of fs' (p_path f1) = None \<and> map_of fs' (p_path f2) = None"
proof -
  let ?s1 = "p_path f1" and ?s2 = "p_path f2" and ?c = "candidate t 1"
  from free have ft: "map_of fs t = None" and fc: "map_of fs ?c = None"
    by (simp_all add: existsSync_def)
  have s1ne: "?s1 \<noteq> []" "?s2 \<noteq> []" using w a1 a2 by (auto simp: wellFormed_iff isFile_iff)
  have d1: "?s1 \<noteq> t" "?s2 \<noteq> t" "?s1 \<noteq> ?c" "?s2 \<noteq> ?c" using a1 a2 ft fc by auto
  have ct: "?c \<noteq> t" by (rule candidate_ne_target[OF seg])
  have cne: "?c \<noteq> []" by (simp add: candidate_def Let_def)
  \<comment> \<open>the first file takes the target\<close>
  have r1: "resolveConflict fs t t 1 = t"
    using resolveConflict_spec[of fs t t 1] free(1) by simp
  from rename_fileI[OF a1 d1(1) s1ne(1) par(1) par(2)] ft obtain fs1 where
    f1: "rename fs ?s1 t = Inr fs1" "map_of fs1 = (map_of fs)(?s1 := None, t \<mapsto> File c1)"
    by auto
  have p1: "processFile folder f1 (fs, ops) =
             (fs1, ops @ [\<lparr> op_type = (if needsMove f1 then Move else Rename),
                             op_from = ?s1, op_to = Some t, backupPath = None \<rparr>])"
    using processFile_known[of folder f1 fs t fs1 ops] t1 d1(1) r1 f1(1) by simp
  \<comment> \<open>the second finds it taken and goes to the first candidate\<close>
  have e1: "existsSync fs1 t" by (simp add: existsSync_def f1(2))
  have e2: "\<not> existsSync fs1 ?c" using fc ct by (simp add: existsSync_def f1(2))
  from resolveConflict_spec[of fs1 t t 1] e1 obtain k where
    k: "1 \<le> k" "resolveConflict fs1 t t 1 = candidate t k"
       "\<forall>j. 1 \<le> j \<and> j < k \<longrightarrow> existsSync fs1 (candidate t j)" by auto
  have "k = 1"
  proof (rule ccontr)
    assume "k \<noteq> 1"
    with k(1) have "1 < k" by simp
    with k(3) have "existsSync fs1 ?c" by simp
    with e2 show False by simp
  qed
  with k have r2: "resolveConflict fs1 t t 1 = ?c" by simp
  have a2': "map_of fs1 ?s2 = Some (File c2)" using a2 ne d1(2) by (simp add: f1(2))
  have bt: "butlast t \<noteq> t" using par(1)
    by (metis append_butlast_last_id append_self_conv list.distinct(1))
  have "butlast t \<noteq> ?s1" using a1 par(2) by auto
  hence pc: "map_of fs1 (butlast ?c) = Some Dir"
    using par(2) bt by (simp add: candidate_dirname f1(2))
  have nc: "map_of fs1 ?c \<noteq> Some Dir" using e2 by (simp add: existsSync_def)
  from rename_fileI[OF a2' d1(4) s1ne(2) cne pc nc] obtain fs2 where
    f2: "rename fs1 ?s2 ?c = Inr fs2" "map_of fs2 = (map_of fs1)(?s2 := None, ?c \<mapsto> File c2)"
    by auto
  have p2: "processFile folder f2 (fs1, ops1) =
             (fs2, ops1 @ [\<lparr> op_type = (if needsMove f2 then Move else Rename),
                              op_from = ?s2, op_to = Some ?c, backupPath = None \<rparr>])" for ops1
    using processFile_known[of folder f2 fs1 ?c fs2 ops1] t2 d1(2) r2 f2(1) by simp
  have "processFiles folder [f1, f2] (fs, ops) =
           (fs2, ops @ [\<lparr> op_type = (if needsMove f1 then Move else Rename),
                           op_from = ?s1, op_to = Some t, backupPath = None \<rparr>,
                         \<lparr> op_type = (if needsMove f2 then Move else Rename),
                           op_from = ?s2, op_to = Some ?c, backupPath = None \<rparr>])"
    by (simp add: processFiles_def p1 p2)
  moreover have "map_of fs2 t = Some (File c1)" using d1(2) ct by (simp add: f2(2) f1(2))
  moreover have "map_of fs2 ?c = Some (File c2)" by (simp add: f2(2))
  moreover have "map_of fs2 ?s1 = None" using ne d1(1,3) by (simp add: f2(2) f1(2))
  moreover have "map_of fs2 ?s2 = None" using d1(4) by (simp add: f2(2))
  ultimately show ?thesis by blast
qed

lemma processFile_keeps:
  assumes "wellFormed fs" "processFile folder file (fs, ops) = (fs', ops')"
    "map_of fs q \<noteq> None" "\<not> prefix (p_path file) q"
  shows "map_of fs' q = map_of fs q"
  using processFile_cases[OF assms(2)] rename_to_free_keeps[OF assms(1) _ _ assms(3,4)]
  by (auto simp: existsSync_def)

lemma candidate_example:
  "candidate (dir @ [js ''report.pdf'']) 2 = dir @ [js ''report_2.pdf'']"
  by (simp add: candidate_def basenameOf_def dirname_def name_eval natToString.simps)

text \<open>
  C3. The conflict loop returns a path that does not exist: the target itself when it is
  free, else the target with \<^verbatim>\<open>_k\<close> before its extension for the first \<open>k\<close> from 1 on that is
  free. When two planned files, both regular files, have one target that is free together
  with its first candidate, the first file ends at the target and the second at the target
  with \<^verbatim>\<open>_1\<close>. Processing a planned file never changes a path that existed before, apart
  from the source and what lies below it: the rename always goes to a path that did not
  exist.
\<close>

theorem conflict_resolution:
  "(\<forall>fs t. \<not> existsSync fs (resolveConflict fs t t 1) \<and>
      (\<not> existsSync fs t \<longrightarrow> resolveConflict fs t t 1 = t) \<and>
      (existsSync fs t \<longrightarrow>
         (\<exists>k\<ge>1. resolveConflict fs t t 1 = candidate t k \<and>
                (\<forall>j. 1 \<le> j \<and> j < k \<longrightarrow> existsSync fs (candidate t j))))) \<and>
   (\<forall>dir. candidate (dir @ [js ''report.pdf'']) 2 = dir @ [js ''report_2.pdf'']) \<and>
   (\<forall>fs folder f1 f2 c1 c2 t ops.
      wellFormed fs \<and> map_of fs (p_path f1) = Some (File c1) \<and>
      map_of fs (p_path f2) = Some (File c2) \<and> p_path f1 \<noteq> p_path f2 \<and>
      targetPathOf folder f1 = t \<and> targetPathOf folder f2 = t \<and>
      \<not> existsSync fs t \<and> \<not> existsSync fs (candidate t 1) \<and>
      t \<noteq> [] \<and> map_of fs (butlast t) = Some Dir \<and> 47 \<notin> set (basenameOf t)
      \<longrightarrow> map_of (fst (processFiles folder [f1, f2] (fs, ops))) t = Some (File c1) \<and>
          map_of (fst (processFiles folder [f1, f2] (fs, ops))) (candidate t 1) = Some (File c2) \<and>
          map (\<lambda>o'. (op_from o', op_to o')) (drop (length ops) (snd (processFiles folder [f1, f2] (fs, ops))))
            = [(p_path f1, Some t), (p_path f2, Some (candidate t 1))]) \<and>
   (\<forall>fs folder file ops q.
      wellFormed fs \<and> map_of fs q \<noteq> None \<and> \<not> prefix (p_path file) q
      \<longrightarrow> map_of (fst (processFile folder file (fs, ops))) q = map_of fs q)"
proof (intro conjI allI impI)
  fix fs t
  show "\<not> existsSync fs (resolveConflict fs t t 1)" by (rule resolveConflict_free)
  show "resolveConflict fs t t 1 = t" if "\<not> existsSync fs t"
    using resolveConflict_spec[of fs t t 1] that by simp
  show "\<exists>k\<ge>1. resolveConflict fs t t 1 = candidate t k \<and>
                (\<forall>j. 1 \<le> j \<and> j < k \<longrightarrow> existsSync fs (candidate t j))" if "existsSync fs t"
    using resolveConflict_spec[of fs t t 1] that by simp
next
  fix dir show "candidate (dir @ [js ''report.pdf'']) 2 = dir @ [js ''report_2.pdf'']"
    by (rule candidate_example)
next
  fix fs folder f1 f2 c1 c2 t ops
  assume h: "wellFormed fs \<and> map_of fs (p_path f1) = Some (File c1) \<and>
      map_of fs (p_path f2) = Some (File c2) \<and> p_path f1 \<noteq> p_path f2 \<and>
      targetPathOf folder f1 = t \<and> targetPathOf folder f2 = t \<and>
      \<not> existsSync fs t \<and> \<not> existsSync fs (candidate t 1) \<and>
      t \<noteq> [] \<and> map_of fs (butlast t) = Some Dir \<and> 47 \<notin> set (basenameOf t)"
  from two_files_same_target[of fs f1 c1 f2 c2 folder t ops] h
  obtain fs' where r: "processFiles folder [f1, f2] (fs, ops) =
           (fs', ops @ [\<lparr> op_type = (if needsMove f1 then Move else Rename),
                           op_from = p_path f1, op_to = Some t, backupPath = None \<rparr>,
                         \<lparr> op_type = (if needsMove f2 then Move else Rename),
                           op_from = p_path f2, op_to = Some (candidate t 1),
                           backupPath = None \<rparr>])"
         "map_of fs' t = Some (File c1)" "map_of fs' (candidate t 1) = Some (File c2)"
    by blast
  show "map_of (fst (processFiles folder [f1, f2] (fs, ops))) t = Some (File c1)"
    using r by simp
  show "map_of (fst (processFiles folder [f1, f2] (fs, ops))) (candidate t 1) = Some (File c2)"
    using r by simp
  show "map (\<lambda>o'. (op_from o', op_to o')) (drop (length ops) (snd (processFiles folder [f1, f2] (fs, ops))))
            = [(p_path f1, Some t), (p_path f2, Some (candidate t 1))]"
    using r by simp
next
  fix fs folder and fl :: planFile and ops q
  assume h: "wellFormed fs \<and> map_of fs q \<noteq> None \<and> \<not> prefix (p_path fl) q"
  obtain fs' ops' where p: "processFile folder fl (fs, ops) = (fs', ops')"
    by (cases "processFile folder fl (fs, ops)")
  from processFile_keeps[OF _ p] h show "map_of (fst (processFile folder fl (fs, ops))) q = map_of fs q"
    by (simp add: p)
qed
lemmas path_eval =
  joinPath_def joinStep_def dirname_def basenameOf_def candidate_def targetPathOf_def
  name_eval natToString.simps

lemmas fs_eval =
  existsSync_def parentIsDir_def hasChildren_def isFile_def remove_def put_def
  rename_def copyFile_def unlink_def rmdir_def mkdirRecursive_def moveTree_def

lemma sampleTreeWithFolder_wellFormed: "wellFormed sampleTreeWithFolder"
  by (simp add: wellFormed_def sampleTreeWithFolder_def sampleTree_def js_def)

lemma capture_target:
  "targetPathOf [js ''d''] (capture n) = [js ''d'', js ''img'', js ''shot.jpg'']"
  by (simp add: capture_def path_eval)

lemma shot_candidate:
  "candidate [js ''d'', js ''img'', js ''shot.jpg''] 1 = [js ''d'', js ''img'', js ''shot_1.jpg'']"
  by (simp add: path_eval)

theorem conflict_resolution_witness:
  "wellFormed sampleTreeWithFolder \<and>
   map_of sampleTreeWithFolder (p_path (capture ''IMG_1.jpg'')) = Some (File [1]) \<and>
   map_of sampleTreeWithFolder (p_path (capture ''IMG_2.jpg'')) = Some (File [2]) \<and>
   targetPathOf [js ''d''] (capture ''IMG_1.jpg'') = targetPathOf [js ''d''] (capture ''IMG_2.jpg'') \<and>
   \<not> existsSync sampleTreeWithFolder [js ''d'', js ''img'', js ''shot.jpg''] \<and>
   map_of (fst (processFiles [js ''d''] [capture ''IMG_1.jpg'', capture ''IMG_2.jpg'']
                  (sampleTreeWithFolder, [])))
     [js ''d'', js ''img'', js ''shot.jpg''] = Some (File [1]) \<and>
   map_of (fst (processFiles [js ''d''] [capture ''IMG_1.jpg'', capture ''IMG_2.jpg'']
                  (sampleTreeWithFolder, [])))
     [js ''d'', js ''img'', js ''shot_1.jpg''] = Some (File [2])"
proof -
  let ?t = "[js ''d'', js ''img'', js ''shot.jpg'']"
  let ?f1 = "capture ''IMG_1.jpg''" and ?f2 = "capture ''IMG_2.jpg''"
  have a1: "map_of sampleTreeWithFolder (p_path ?f1) = Some (File [1])"
    by (simp add: sampleTreeWithFolder_def sampleTree_def capture_def js_def)
  have a2: "map_of sampleTreeWithFolder (p_path ?f2) = Some (File [2])"
    by (simp add: sampleTreeWithFolder_def sampleTree_def capture_def js_def)
  have ne: "p_path ?f1 \<noteq> p_path ?f2" by (simp add: capture_def js_def)
  have fr: "\<not> existsSync sampleTreeWithFolder ?t"
    by (simp add: existsSync_def sampleTreeWithFolder_def sampleTree_def js_def)
  have fr1: "\<not> existsSync sampleTreeWithFolder (candidate ?t 1)"
    unfolding shot_candidate
    by (simp add: existsSync_def sampleTreeWithFolder_def sampleTree_def js_def)
  have par: "?t \<noteq> []" "map_of sampleTreeWithFolder (butlast ?t) = Some Dir"
    by (simp_all add: sampleTreeWithFolder_def sampleTree_def js_def)
  have seg: "47 \<notin> set (basenameOf ?t)" by (simp add: basenameOf_def js_def)
  note th = conflict_resolution[THEN conjunct2, THEN conjunct2, THEN conjunct1, rule_format,
              of sampleTreeWithFolder ?f1 "[1]" ?f2 "[2]" "[js ''d'']" ?t "[]"]
  have "map_of (fst (processFiles [js ''d''] [?f1, ?f2] (sampleTreeWithFolder, []))) ?t
          = Some (File [1]) \<and>
        map_of (fst (processFiles [js ''d''] [?f1, ?f2] (sampleTreeWithFolder, [])))
          (candidate ?t 1) = Some (File [2])"
    using th sampleTreeWithFolder_wellFormed a1 a2 ne capture_target fr fr1 par seg by blast
  with sampleTreeWithFolder_wellFormed a1 a2 fr show ?thesis
    by (simp only: shot_candidate capture_target) simp
qed

section \<open>One duplicate\<close>

lemma processDuplicate_cases:
  "(\<exists>e. copyFile fs d bp = Inl e \<and> processDuplicate d bp (fs, ops) = (fs, ops)) \<or>
   (\<exists>fs1 e. copyFile fs d bp = Inr fs1 \<and> unlink fs1 d = Inl e \<and>
            processDuplicate d bp (fs, ops) = (fs1, ops)) \<or>
   (\<exists>fs1 fs2. copyFile fs d bp = Inr fs1 \<and> unlink fs1 d = Inr fs2 \<and>
            processDuplicate d bp (fs, ops) =
              (fs2, ops @ [\<lparr> op_type = Delete, op_from = d, op_to = None,
                              backupPath = Some bp \<rparr>]))"
proof (cases "copyFile fs d bp")
  case (Inl e)
  thus ?thesis by (simp add: processDuplicate_def)
next
  case (Inr fs1)
  thus ?thesis by (cases "unlink fs1 d") (simp_all add: processDuplicate_def)
qed

lemma zip_upt_Cons:
  "zip (d # dups) [i..<i + length (d # dups)] = (d, i) # zip dups [i + 1..<i + 1 + length dups]"
proof -
  have "[i..<i + length (d # dups)] = i # [i + 1..<i + 1 + length dups]"
    using upt_conv_Cons[of i "i + length (d # dups)"] by simp
  thus ?thesis by simp
qed

lemma processDuplicates_log:
  "\<exists>new. snd (processDuplicates env dups i (fs, ops)) = ops @ new \<and>
         length new \<le> length dups \<and>
         (\<forall>o' \<in> set new. \<exists>(d, k) \<in> set (zip dups [i..<i + length dups]).
             o' = \<lparr> op_type = Delete, op_from = d, op_to = None,
                    backupPath = Some (backupPathOf env d k) \<rparr>)"
proof (induction dups arbitrary: i fs ops)
  case Nil
  then show ?case by simp
next
  case (Cons d dups)
  obtain fs1 ops1 where s: "processDuplicate d (backupPathOf env d i) (fs, ops) = (fs1, ops1)"
    by (cases "processDuplicate d (backupPathOf env d i) (fs, ops)")
  from processDuplicate_cases[of fs d "backupPathOf env d i" ops] s
  have "ops1 = ops \<or> ops1 = ops @ [\<lparr> op_type = Delete, op_from = d, op_to = None,
                              backupPath = Some (backupPathOf env d i) \<rparr>]" by auto
  then obtain first where f: "ops1 = ops @ first" "length first \<le> 1"
    "\<forall>o' \<in> set first. o' = \<lparr> op_type = Delete, op_from = d, op_to = None,
                              backupPath = Some (backupPathOf env d i) \<rparr>"
    by (cases "ops1 = ops") auto
  from Cons.IH[of "i + 1" fs1 ops1] obtain new where
    n: "snd (processDuplicates env dups (i + 1) (fs1, ops1)) = ops1 @ new"
       "length new \<le> length dups"
       "\<forall>o' \<in> set new. \<exists>(d, k) \<in> set (zip dups [i + 1..<i + 1 + length dups]).
             o' = \<lparr> op_type = Delete, op_from = d, op_to = None,
                    backupPath = Some (backupPathOf env d k) \<rparr>" by blast
  have "snd (processDuplicates env (d # dups) i (fs, ops)) = ops @ (first @ new)"
    using s n(1) f(1) by simp
  moreover have "length (first @ new) \<le> length (d # dups)" using f(2) n(2) by simp
  moreover have "\<forall>o' \<in> set (first @ new).
           \<exists>(d', k) \<in> set (zip (d # dups) [i..<i + length (d # dups)]).
             o' = \<lparr> op_type = Delete, op_from = d', op_to = None,
                    backupPath = Some (backupPathOf env d' k) \<rparr>"
  proof
    fix o' assume "o' \<in> set (first @ new)"
    hence "o' \<in> set first \<or> o' \<in> set new" by simp
    thus "\<exists>(d', k) \<in> set (zip (d # dups) [i..<i + length (d # dups)]).
             o' = \<lparr> op_type = Delete, op_from = d', op_to = None,
                    backupPath = Some (backupPathOf env d' k) \<rparr>"
    proof
      assume "o' \<in> set first"
      with f(3) show ?thesis unfolding zip_upt_Cons by simp
    next
      assume "o' \<in> set new"
      with n(3) show ?thesis unfolding zip_upt_Cons by auto
    qed
  qed
  ultimately show ?case by blast
qed

text \<open>Where the backup of a duplicate goes.\<close>

lemma splitSlash_nonempty: "splitSlash s \<noteq> []"
  by (induction s) (auto split: list.splits)

lemma splitSlash_last_no_slash: "47 \<notin> set (last (splitSlash s))"
proof (induction s)
  case Nil
  then show ?case by simp
next
  case (Cons c cs)
  show ?case
  proof (cases "c = 47")
    case True
    with Cons splitSlash_nonempty[of cs] show ?thesis by simp
  next
    case False
    obtain seg segs where s: "splitSlash cs = seg # segs"
      using splitSlash_nonempty[of cs] by (cases "splitSlash cs") auto
    with Cons False show ?thesis by (cases segs) auto
  qed
qed

lemma splitSlash_last_char:
  "s \<noteq> [] \<Longrightarrow> last s \<noteq> 47 \<Longrightarrow>
   last (splitSlash s) \<noteq> [] \<and> last (last (splitSlash s)) = last s"
proof (induction s)
  case Nil
  then show ?case by simp
next
  case (Cons c cs)
  show ?case
  proof (cases "cs = []")
    case True
    with Cons.prems show ?thesis by simp
  next
    case False
    with Cons have ih: "last (splitSlash cs) \<noteq> [] \<and> last (last (splitSlash cs)) = last cs"
      by simp
    obtain seg segs where s: "splitSlash cs = seg # segs"
      using splitSlash_nonempty[of cs] by (cases "splitSlash cs") auto
    show ?thesis
    proof (cases "c = 47")
      case True
      with ih s False show ?thesis by simp
    next
      case c: False
      with ih s False show ?thesis by (cases segs) auto
    qed
  qed
qed

text \<open>
  Joining a name that ends in a digit: whatever the name is, its part after the last
  separator becomes the last segment of the result.
\<close>

lemma joinPath_last:
  assumes "s \<noteq> []" "isDigit (last s)"
  shows "joinPath dir s \<noteq> [] \<and> last (joinPath dir s) = last (splitSlash s)"
proof -
  let ?l = "last (splitSlash s)"
  have d: "last s \<noteq> 47" using assms(2) by (auto simp: isDigit_def)
  from splitSlash_last_char[OF assms(1) d] have l: "?l \<noteq> []" "last ?l = last s" by simp_all
  hence "?l \<noteq> [46]" "?l \<noteq> [46, 46]" using assms(2) by (auto simp: isDigit_def)
  with l(1) have j: "\<And>p. joinStep p ?l = p @ [?l]" by (simp add: joinStep_def)
  have "splitSlash s = butlast (splitSlash s) @ [?l]"
    using splitSlash_nonempty[of s] by simp
  hence "joinPath dir s = joinStep (foldl joinStep dir (butlast (splitSlash s))) ?l"
    unfolding joinPath_def by (metis foldl_Cons foldl_Nil foldl_append)
  thus ?thesis by (simp add: j)
qed

lemma backupPathOf_ne: "backupPathOf env d i \<noteq> d"
proof
  let ?s = "basenameOf d @ js ''_'' @ natToString (dateNow env (i + 1))"
  assume e: "backupPathOf env d i = d"
  have ne: "?s \<noteq> []" by (simp add: js_def)
  have "last ?s = last (natToString (dateNow env (i + 1)))"
    by (simp add: natToString_nonempty js_def)
  hence dg: "isDigit (last ?s)" using natToString_last_digit by simp
  from joinPath_last[OF ne dg, of "backupDirOf env"] e
  have d: "d \<noteq> []" "last d = last (splitSlash ?s)" by (simp_all add: backupPathOf_def)
  hence b: "basenameOf d = last (splitSlash ?s)" by (simp add: basenameOf_def)
  hence "47 \<notin> set (basenameOf d)" using splitSlash_last_no_slash[of ?s] by simp
  hence "47 \<notin> set ?s" using natToString_no_slash by (simp add: js_def)
  hence "splitSlash ?s = [?s]" by (rule splitSlash_no_slash)
  with b have "basenameOf d = ?s" by simp
  thus False by (simp add: js_def)
qed

lemma backupDirOf_eq:
  "backupDirOf env = tempDir env @ [js ''zhili-backup-'' @ natToString (dateNow env 0)]"
proof -
  have "validSegment ([] @ js ''_'' @ natToString (dateNow env 0))"
    by (rule stamped_valid) simp
  hence v: "validSegment (js ''zhili-backup-'' @ natToString (dateNow env 0))"
    using natToString_no_slash[of "dateNow env 0"] natToString_last_digit[of "dateNow env 0"]
    by (auto simp: validSegment_def js_def isDigit_def)
  show ?thesis unfolding backupDirOf_def by (rule joinPath_segment[OF v])
qed

lemma backupPathOf_eq:
  assumes "47 \<notin> set (basenameOf d)"
  shows "backupPathOf env d i =
           backupDirOf env @ [basenameOf d @ js ''_'' @ natToString (dateNow env (i + 1))]"
  unfolding backupPathOf_def by (rule joinPath_segment[OF stamped_valid[OF assms]])

text \<open>
  C2. For one duplicate: when the backup copy fails, the step changes nothing, so the
  original is not deleted and nothing is logged; when the copy succeeds and the removal
  fails, nothing is logged either; the relocate operation, with source and backup path,
  is appended exactly when both succeeded. The backup path of a run is never the path of
  the duplicate itself; it is the duplicate's name with a time stamp, directly in the
  backup directory of the run, which is a directory of its own in the directory for
  temporary files. So whenever the step of a run changes what is at the duplicate's path,
  the copy had succeeded and the backup path, another path, holds the bytes the duplicate
  had. Over the whole step, everything appended to the log is such an operation for one of
  the listed duplicates, with the backup path of this run for its position.
\<close>

theorem backup_before_delete:
  "((\<exists>e. copyFile fs d bp = Inl e) \<longrightarrow> processDuplicate d bp (fs, ops) = (fs, ops)) \<and>
   (snd (processDuplicate d bp (fs, ops)) \<noteq> ops \<longleftrightarrow>
      (\<exists>fs1 fs2. copyFile fs d bp = Inr fs1 \<and> unlink fs1 d = Inr fs2)) \<and>
   (snd (processDuplicate d bp (fs, ops)) \<noteq> ops \<longrightarrow>
      snd (processDuplicate d bp (fs, ops)) =
        ops @ [\<lparr> op_type = Delete, op_from = d, op_to = None, backupPath = Some bp \<rparr>]) \<and>
   (map_of (fst (processDuplicate d bp (fs, ops))) d \<noteq> map_of fs d \<longrightarrow>
      (\<exists>c fs1. map_of fs d = Some (File c) \<and> copyFile fs d bp = Inr fs1 \<and>
               map_of fs1 d = Some (File c) \<and>
               (d \<noteq> bp \<longrightarrow> map_of (fst (processDuplicate d bp (fs, ops))) bp = Some (File c)))) \<and>
   backupPathOf env d i \<noteq> d \<and>
   backupDirOf env = tempDir env @ [js ''zhili-backup-'' @ natToString (dateNow env 0)] \<and>
   (47 \<notin> set (basenameOf d) \<longrightarrow>
      backupPathOf env d i =
        backupDirOf env @ [basenameOf d @ js ''_'' @ natToString (dateNow env (i + 1))]) \<and>
   (map_of (fst (processDuplicate d (backupPathOf env d i) (fs, ops))) d \<noteq> map_of fs d \<longrightarrow>
      (\<exists>c fs1. map_of fs d = Some (File c) \<and>
               copyFile fs d (backupPathOf env d i) = Inr fs1 \<and>
               map_of fs1 (backupPathOf env d i) = Some (File c) \<and>
               map_of (fst (processDuplicate d (backupPathOf env d i) (fs, ops)))
                 (backupPathOf env d i) = Some (File c))) \<and>
   (\<exists>new. snd (processDuplicates env dups i (fs, ops)) = ops @ new \<and>
          length new \<le> length dups \<and>
          (\<forall>o' \<in> set new. \<exists>(d, k) \<in> set (zip dups [i..<i + length dups]).
              o' = \<lparr> op_type = Delete, op_from = d, op_to = None,
                     backupPath = Some (backupPathOf env d k) \<rparr>))"
proof -
  have g: "\<And>bp. map_of (fst (processDuplicate d bp (fs, ops))) d \<noteq> map_of fs d \<longrightarrow>
      (\<exists>c fs1. map_of fs d = Some (File c) \<and> copyFile fs d bp = Inr fs1 \<and>
               map_of fs1 d = Some (File c) \<and>
               (d \<noteq> bp \<longrightarrow> map_of fs1 bp = Some (File c) \<and>
                  map_of (fst (processDuplicate d bp (fs, ops))) bp = Some (File c)))"
  proof
    fix bp
    assume ch: "map_of (fst (processDuplicate d bp (fs, ops))) d \<noteq> map_of fs d"
    from processDuplicate_cases[of fs d bp ops]
    show "\<exists>c fs1. map_of fs d = Some (File c) \<and> copyFile fs d bp = Inr fs1 \<and>
               map_of fs1 d = Some (File c) \<and>
               (d \<noteq> bp \<longrightarrow> map_of fs1 bp = Some (File c) \<and>
                  map_of (fst (processDuplicate d bp (fs, ops))) bp = Some (File c))"
    proof (elim disjE exE conjE)
      fix e assume "processDuplicate d bp (fs, ops) = (fs, ops)"
      with ch show ?thesis by simp
    next
      fix fs1 e assume cp: "copyFile fs d bp = Inr fs1"
        and r: "processDuplicate d bp (fs, ops) = (fs1, ops)"
      from copyFileD[OF cp] obtain c where
        "map_of fs d = Some (File c)" "map_of fs1 d = Some (File c)"
        by (auto split: if_splits)
      with ch r show ?thesis by simp
    next
      fix fs1 fs2 assume cp: "copyFile fs d bp = Inr fs1" and u: "unlink fs1 d = Inr fs2"
        and r: "processDuplicate d bp (fs, ops) =
              (fs2, ops @ [\<lparr> op_type = Delete, op_from = d, op_to = None,
                              backupPath = Some bp \<rparr>])"
      from copyFileD[OF cp] obtain c where
        d: "map_of fs d = Some (File c)" "map_of fs1 d = Some (File c)"
        and b: "d \<noteq> bp \<longrightarrow> map_of fs1 bp = Some (File c)"
        by (auto split: if_splits)
      from unlinkD[OF u] have "map_of fs2 = (map_of fs1)(d := None)" by simp
      with b have "d \<noteq> bp \<longrightarrow> map_of fs2 bp = Some (File c)" by simp
      with b d cp r show ?thesis by simp
    qed
  qed
  note c = processDuplicate_cases[of fs d bp ops]
  have p1: "(\<exists>e. copyFile fs d bp = Inl e) \<longrightarrow> processDuplicate d bp (fs, ops) = (fs, ops)"
    using c by auto
  have p2: "snd (processDuplicate d bp (fs, ops)) \<noteq> ops \<longleftrightarrow>
      (\<exists>fs1 fs2. copyFile fs d bp = Inr fs1 \<and> unlink fs1 d = Inr fs2)"
    using c by auto
  have p3: "snd (processDuplicate d bp (fs, ops)) \<noteq> ops \<longrightarrow>
      snd (processDuplicate d bp (fs, ops)) =
        ops @ [\<lparr> op_type = Delete, op_from = d, op_to = None, backupPath = Some bp \<rparr>]"
    using c by auto
  have p4: "map_of (fst (processDuplicate d bp (fs, ops))) d \<noteq> map_of fs d \<longrightarrow>
      (\<exists>c fs1. map_of fs d = Some (File c) \<and> copyFile fs d bp = Inr fs1 \<and>
               map_of fs1 d = Some (File c) \<and>
               (d \<noteq> bp \<longrightarrow> map_of (fst (processDuplicate d bp (fs, ops))) bp = Some (File c)))"
    using g[of bp] by blast
  have p5: "backupPathOf env d i \<noteq> d" by (rule backupPathOf_ne)
  have p6: "backupDirOf env = tempDir env @ [js ''zhili-backup-'' @ natToString (dateNow env 0)]"
    by (rule backupDirOf_eq)
  have p7: "47 \<notin> set (basenameOf d) \<longrightarrow>
      backupPathOf env d i =
        backupDirOf env @ [basenameOf d @ js ''_'' @ natToString (dateNow env (i + 1))]"
    using backupPathOf_eq by blast
  have p8: "map_of (fst (processDuplicate d (backupPathOf env d i) (fs, ops))) d \<noteq> map_of fs d
      \<longrightarrow>
      (\<exists>c fs1. map_of fs d = Some (File c) \<and>
               copyFile fs d (backupPathOf env d i) = Inr fs1 \<and>
               map_of fs1 (backupPathOf env d i) = Some (File c) \<and>
               map_of (fst (processDuplicate d (backupPathOf env d i) (fs, ops)))
                 (backupPathOf env d i) = Some (File c))"
    using g[of "backupPathOf env d i"] backupPathOf_ne[of env d i] by metis
  from p1 p2 p3 p4 p5 p6 p7 p8 processDuplicates_log[of env dups i fs ops]
  show ?thesis by blast
qed

lemma sample_backupDir: "backupDirOf sampleExecEnv = [js ''tmp'', js ''zhili-backup-100'']"
  by (simp add: backupDirOf_def sampleExecEnv_def path_eval)

lemma sample_backupPath:
  "backupPathOf sampleExecEnv [js ''d'', js ''copy.jpg''] 0
     = [js ''tmp'', js ''zhili-backup-100'', js ''copy.jpg_101'']"
  unfolding backupPathOf_def sample_backupDir
  by (simp add: sampleExecEnv_def path_eval)

theorem backup_before_delete_witness:
  "copyFile sampleTree [js ''d'', js ''copy.jpg'']
       (backupPathOf sampleExecEnv [js ''d'', js ''copy.jpg''] 0) = Inl ENOENT \<and>
   processDuplicate [js ''d'', js ''copy.jpg'']
       (backupPathOf sampleExecEnv [js ''d'', js ''copy.jpg''] 0) (sampleTree, [])
     = (sampleTree, []) \<and>
   backupPathOf sampleExecEnv [js ''d'', js ''copy.jpg''] 0
     = [js ''tmp'', js ''zhili-backup-100'', js ''copy.jpg_101''] \<and>
   snd (processDuplicate [js ''d'', js ''copy.jpg'']
       (backupPathOf sampleExecEnv [js ''d'', js ''copy.jpg''] 0) (sampleTreeWithBackup, []))
     = [\<lparr> op_type = Delete, op_from = [js ''d'', js ''copy.jpg''], op_to = None,
          backupPath = Some [js ''tmp'', js ''zhili-backup-100'', js ''copy.jpg_101''] \<rparr>] \<and>
   map_of (fst (processDuplicate [js ''d'', js ''copy.jpg'']
       (backupPathOf sampleExecEnv [js ''d'', js ''copy.jpg''] 0) (sampleTreeWithBackup, [])))
     [js ''d'', js ''copy.jpg''] = None \<and>
   map_of (fst (processDuplicate [js ''d'', js ''copy.jpg'']
       (backupPathOf sampleExecEnv [js ''d'', js ''copy.jpg''] 0) (sampleTreeWithBackup, [])))
     [js ''tmp'', js ''zhili-backup-100'', js ''copy.jpg_101''] = Some (File [1])"
proof -
  let ?d = "[js ''d'', js ''copy.jpg'']"
  let ?bp = "[js ''tmp'', js ''zhili-backup-100'', js ''copy.jpg_101'']"
  note th0 = backup_before_delete[of sampleTree ?d "backupPathOf sampleExecEnv ?d 0" "[]"
               sampleExecEnv 0 "[]"]
  note th1 = backup_before_delete[of sampleTreeWithBackup ?d "backupPathOf sampleExecEnv ?d 0"
               "[]" sampleExecEnv 0 "[]"]
  have seg: "47 \<notin> set (basenameOf ?d)" by (simp add: basenameOf_def js_def)
  have "backupDirOf sampleExecEnv = [js ''tmp'', js ''zhili-backup-100'']"
    using th0 by (simp add: sampleExecEnv_def natToString.simps js_def)
  moreover from th0 seg have "backupPathOf sampleExecEnv ?d 0 =
      backupDirOf sampleExecEnv @ [basenameOf ?d @ js ''_'' @ natToString (dateNow sampleExecEnv (0 + 1))]"
    by blast
  ultimately have bp: "backupPathOf sampleExecEnv ?d 0 = ?bp"
    by (simp add: sampleExecEnv_def basenameOf_def natToString.simps js_def)
  have c0: "copyFile sampleTree ?d ?bp = Inl ENOENT"
    by (simp add: copyFile_def parentIsDir_def sampleTree_def js_def)
  have src: "map_of sampleTreeWithBackup ?d = Some (File [1])"
    by (simp add: sampleTreeWithBackup_def sampleTree_def js_def)
  have c1: "copyFile sampleTreeWithBackup ?d ?bp = Inr (put sampleTreeWithBackup ?bp (File [1]))"
    by (simp add: copyFile_def parentIsDir_def sampleTreeWithBackup_def sampleTree_def js_def)
  have m1: "map_of (put sampleTreeWithBackup ?bp (File [1])) ?d = Some (File [1])"
    using src by (simp add: map_of_put js_def)
  have u1: "unlink (put sampleTreeWithBackup ?bp (File [1])) ?d
              = Inr (remove (put sampleTreeWithBackup ?bp (File [1])) ?d)"
    using m1 by (simp add: unlink_def)
  have r1: "processDuplicate ?d ?bp (sampleTreeWithBackup, [])
              = (remove (put sampleTreeWithBackup ?bp (File [1])) ?d,
                 [\<lparr> op_type = Delete, op_from = ?d, op_to = None, backupPath = Some ?bp \<rparr>])"
    using c1 u1 by (simp add: processDuplicate_def)
  have gone: "map_of (fst (processDuplicate ?d ?bp (sampleTreeWithBackup, []))) ?d = None"
    unfolding r1 by (simp add: map_of_remove)
  from th0 c0 have p1: "processDuplicate ?d ?bp (sampleTree, []) = (sampleTree, [])"
    unfolding bp by blast
  from th1 c1 u1 have "snd (processDuplicate ?d ?bp (sampleTreeWithBackup, [])) \<noteq> []"
    unfolding bp by blast
  with th1 have p2: "snd (processDuplicate ?d ?bp (sampleTreeWithBackup, []))
     = [\<lparr> op_type = Delete, op_from = ?d, op_to = None, backupPath = Some ?bp \<rparr>]"
    unfolding bp by simp
  from gone src
  have ch: "map_of (fst (processDuplicate ?d ?bp (sampleTreeWithBackup, []))) ?d
          \<noteq> map_of sampleTreeWithBackup ?d" by simp
  have "map_of (fst (processDuplicate ?d ?bp (sampleTreeWithBackup, []))) ?d
          \<noteq> map_of sampleTreeWithBackup ?d \<longrightarrow>
        (\<exists>c fs1. map_of sampleTreeWithBackup ?d = Some (File c) \<and>
               copyFile sampleTreeWithBackup ?d ?bp = Inr fs1 \<and>
               map_of fs1 ?bp = Some (File c) \<and>
               map_of (fst (processDuplicate ?d ?bp (sampleTreeWithBackup, []))) ?bp
                 = Some (File c))"
    using th1 unfolding bp by blast
  with ch src
  have p3: "map_of (fst (processDuplicate ?d ?bp (sampleTreeWithBackup, []))) ?bp = Some (File [1])"
    by auto
  from c0 p1 p2 gone p3 show ?thesis unfolding bp by blast
qed

section \<open>What a run logs and returns\<close>

lemma countType_append: "countType t (a @ b) = countType t a + countType t b"
  by (simp add: countType_def)

lemma countType_none: "\<forall>o' \<in> set ops. op_type o' \<noteq> t \<Longrightarrow> countType t ops = 0"
  by (simp add: countType_def)

lemma countType_le: "countType t ops \<le> length ops"
  by (simp add: countType_def)

lemma countType_two_le: "t \<noteq> u \<Longrightarrow> countType t ops + countType u ops \<le> length ops"
  by (induction ops) (auto simp: countType_def)

lemma createCategoryDirs_log:
  "createCategoryDirs folder cats fs ops cd = Inr (fs', ops', cd') \<Longrightarrow>
   \<exists>new. ops' = ops @ new \<and> (\<forall>o' \<in> set new. op_type o' = Mkdir) \<and>
         length new \<le> length cats \<and> length cd' \<le> length cd + length new"
proof (induction cats arbitrary: fs ops cd)
  case Nil
  then show ?case by simp
next
  case (Cons c cats)
  let ?p = "joinPath folder c"
  show ?case
  proof (cases "existsSync fs ?p")
    case True
    with Cons.prems have "createCategoryDirs folder cats fs ops cd = Inr (fs', ops', cd')"
      by (simp add: Let_def)
    from Cons.IH[OF this] show ?thesis by auto
  next
    case False
    show ?thesis
    proof (cases "mkdirRecursive fs ?p")
      case (Inl e)
      with False Cons.prems show ?thesis by (simp add: Let_def)
    next
      case (Inr fs1)
      let ?o = "\<lparr> op_type = Mkdir, op_from = ?p, op_to = None, backupPath = None \<rparr>"
      from False Inr Cons.prems
      have "createCategoryDirs folder cats fs1 (ops @ [?o]) (List.insert ?p cd)
              = Inr (fs', ops', cd')" by (simp add: Let_def)
      from Cons.IH[OF this] obtain new where
        n: "ops' = (ops @ [?o]) @ new" "\<forall>o' \<in> set new. op_type o' = Mkdir"
           "length new \<le> length cats" "length cd' \<le> length (List.insert ?p cd) + length new"
        by blast
      have "length (List.insert ?p cd) \<le> length cd + 1" by (simp add: List.insert_def)
      with n show ?thesis by (intro exI[of _ "?o # new"]) auto
    qed
  qed
qed

lemma processFile_log:
  "\<exists>new. snd (processFile folder file (fs, ops)) = ops @ new \<and> length new \<le> 1 \<and>
         (\<forall>o' \<in> set new. op_type o' = Move \<or> op_type o' = Rename)"
proof -
  obtain fs' ops' where p: "processFile folder file (fs, ops) = (fs', ops')"
    by (cases "processFile folder file (fs, ops)")
  from processFile_cases[OF p] show ?thesis
  proof
    assume "fs' = fs \<and> ops' = ops"
    with p show ?thesis by simp
  next
    assume "\<exists>b. \<not> existsSync fs b \<and> butlast b = butlast (targetPathOf folder file) \<and>
              rename fs (p_path file) b = Inr fs' \<and>
              b = resolveConflict fs (targetPathOf folder file) (targetPathOf folder file) 1 \<and>
              ops' = ops @ [\<lparr> op_type = (if needsMove file then Move else Rename),
                               op_from = p_path file, op_to = Some b, backupPath = None \<rparr>]"
    then obtain b where
      "ops' = ops @ [\<lparr> op_type = (if needsMove file then Move else Rename),
                        op_from = p_path file, op_to = Some b, backupPath = None \<rparr>]" by blast
    with p show ?thesis by simp
  qed
qed

lemma processFiles_log:
  "\<exists>new. snd (processFiles folder files (fs, ops)) = ops @ new \<and> length new \<le> length files \<and>
         (\<forall>o' \<in> set new. op_type o' = Move \<or> op_type o' = Rename)"
proof (induction files arbitrary: fs ops)
  case Nil
  then show ?case by (simp add: processFiles_def)
next
  case (Cons f files)
  obtain fs1 ops1 where s: "processFile folder f (fs, ops) = (fs1, ops1)"
    by (cases "processFile folder f (fs, ops)")
  from processFile_log[of folder f fs ops] s obtain first where
    f: "ops1 = ops @ first" "length first \<le> 1"
       "\<forall>o' \<in> set first. op_type o' = Move \<or> op_type o' = Rename" by auto
  from Cons.IH[of fs1 ops1] obtain new where
    n: "snd (processFiles folder files (fs1, ops1)) = ops1 @ new" "length new \<le> length files"
       "\<forall>o' \<in> set new. op_type o' = Move \<or> op_type o' = Rename" by blast
  have "snd (processFiles folder (f # files) (fs, ops)) = ops @ (first @ new)"
    using s f(1) n(1) by (simp add: processFiles_def)
  moreover have "length (first @ new) \<le> length (f # files)" using f(2) n(2) by simp
  moreover have "\<forall>o' \<in> set (first @ new). op_type o' = Move \<or> op_type o' = Rename"
    using f(3) n(3) by auto
  ultimately show ?case by blast
qed

lemma processDuplicates_types:
  "\<exists>new. snd (processDuplicates env dups i (fs, ops)) = ops @ new \<and>
         length new \<le> length dups \<and> (\<forall>o' \<in> set new. op_type o' = Delete)"
proof -
  from processDuplicates_log[of env dups i fs ops] obtain new where
    n: "snd (processDuplicates env dups i (fs, ops)) = ops @ new" "length new \<le> length dups"
       "\<forall>o' \<in> set new. \<exists>(d, k) \<in> set (zip dups [i..<i + length dups]).
             o' = \<lparr> op_type = Delete, op_from = d, op_to = None,
                    backupPath = Some (backupPathOf env d k) \<rparr>" by blast
  from n(3) have "\<forall>o' \<in> set new. op_type o' = Delete" by fastforce
  with n(1,2) show ?thesis by blast
qed

text \<open>The counts of a log made of the three steps.\<close>

lemma counts_of_steps:
  assumes a: "\<forall>o' \<in> set newA. op_type o' = Mkdir"
      and f: "\<forall>o' \<in> set newF. op_type o' = Move \<or> op_type o' = Rename"
      and d: "\<forall>o' \<in> set newD. op_type o' = Delete"
  shows "countType Move (newA @ newF @ newD) + countType Rename (newA @ newF @ newD)
           = length newF"
    and "countType Delete (newA @ newF @ newD) = length newD"
    and "countType Mkdir (newA @ newF @ newD) = length newA"
proof -
  have z: "countType Move newA = 0" "countType Rename newA = 0" "countType Delete newA = 0"
          "countType Move newD = 0" "countType Rename newD = 0" "countType Mkdir newD = 0"
          "countType Delete newF = 0" "countType Mkdir newF = 0"
    using a f d by (auto intro!: countType_none)
  have "countType Move newF + countType Rename newF = length newF"
    using f by (induction newF) (auto simp: countType_def)
  moreover have "countType Delete newD = length newD" using d by (simp add: countType_def)
  moreover have "countType Mkdir newA = length newA" using a by (simp add: countType_def)
  ultimately show "countType Move (newA @ newF @ newD) + countType Rename (newA @ newF @ newD)
           = length newF"
    and "countType Delete (newA @ newF @ newD) = length newD"
    and "countType Mkdir (newA @ newF @ newD) = length newA"
    using z by (simp_all add: countType_append)
qed

lemma executeOrganize_success:
  assumes m: "mkdirRecursive fs (backupDirOf env) = Inr fs0"
      and c: "createCategoryDirs (folderPath pl) (categories pl) fs0 [] [] = Inr (fs1, ops1, cd)"
      and r: "processDuplicates env (duplicatesToDelete pl) 0
                (processFiles (folderPath pl) (p_files pl) (fs1, ops1)) = (fs3, ops)"
  shows "executeOrganize env pl (fs, undoStack) =
           (ExecSuccess (countType Move ops) (countType Rename ops) (countType Delete ops)
              (length cd),
            fs3,
            undoStack @ [\<lparr> timestamp = dateNow env (length (duplicatesToDelete pl) + 1),
                           operations = ops \<rparr>])"
  using m c r by (simp add: executeOrganize_def Let_def)

lemma executeOrganize_bounds:
  assumes c: "createCategoryDirs (folderPath pl) (categories pl) fs0 [] [] = Inr (fs1, ops1, cd)"
      and r: "processDuplicates env (duplicatesToDelete pl) 0
                (processFiles (folderPath pl) (p_files pl) (fs1, ops1)) = (fs3, ops)"
  shows "countType Move ops + countType Rename ops \<le> length (p_files pl) \<and>
         countType Delete ops \<le> length (duplicatesToDelete pl) \<and>
         length cd \<le> length (categories pl)"
proof -
  from createCategoryDirs_log[OF c] obtain newA where
    a: "ops1 = newA" "\<forall>o' \<in> set newA. op_type o' = Mkdir" "length newA \<le> length (categories pl)"
       "length cd \<le> length newA" by auto
  obtain fs2 ops2 where s2: "processFiles (folderPath pl) (p_files pl) (fs1, ops1) = (fs2, ops2)"
    by (cases "processFiles (folderPath pl) (p_files pl) (fs1, ops1)")
  from processFiles_log[of "folderPath pl" "p_files pl" fs1 ops1] s2 obtain newF where
    f: "ops2 = ops1 @ newF" "length newF \<le> length (p_files pl)"
       "\<forall>o' \<in> set newF. op_type o' = Move \<or> op_type o' = Rename" by auto
  from processDuplicates_types[of env "duplicatesToDelete pl" 0 fs2 ops2] r s2 obtain newD where
    d: "ops = ops2 @ newD" "length newD \<le> length (duplicatesToDelete pl)"
       "\<forall>o' \<in> set newD. op_type o' = Delete" by auto
  have o: "ops = newA @ newF @ newD" using a(1) f(1) d(1) by simp
  from counts_of_steps[OF a(2) f(3) d(3)] o f(2) d(2) a(3,4) show ?thesis by simp
qed

text \<open>
  C4. A run that returns a failure leaves the undo stack as it was; that is what happens
  when the backup directory cannot be created. When the backup directory and the category
  directories can be created, the run returns success, with the counts of the operations
  it logged (at most one per planned file, at most one per duplicate), and pushes that
  log on the undo stack. A planned file whose move fails, or a duplicate whose copy or
  removal fails, adds nothing to the log, and the rest of the list is processed as it
  would be without it.
\<close>

theorem failure_semantics:
  "(\<forall>e fs' stack'. executeOrganize env pl (fs, undoStack) = (ExecFailure e, fs', stack')
        \<longrightarrow> stack' = undoStack) \<and>
   (\<forall>e. mkdirRecursive fs (backupDirOf env) = Inl e
        \<longrightarrow> executeOrganize env pl (fs, undoStack) = (ExecFailure e, fs, undoStack)) \<and>
   (\<forall>fs0 fs1 ops1 createdDirs.
      mkdirRecursive fs (backupDirOf env) = Inr fs0 \<and>
      createCategoryDirs (folderPath pl) (categories pl) fs0 [] [] = Inr (fs1, ops1, createdDirs)
      \<longrightarrow> (\<exists>fs3 ops.
             processDuplicates env (duplicatesToDelete pl) 0
               (processFiles (folderPath pl) (p_files pl) (fs1, ops1)) = (fs3, ops) \<and>
             executeOrganize env pl (fs, undoStack) =
               (ExecSuccess (countType Move ops) (countType Rename ops) (countType Delete ops)
                  (length createdDirs),
                fs3,
                undoStack @ [\<lparr> timestamp = dateNow env (length (duplicatesToDelete pl) + 1),
                               operations = ops \<rparr>]) \<and>
             countType Move ops + countType Rename ops \<le> length (p_files pl) \<and>
             countType Delete ops \<le> length (duplicatesToDelete pl) \<and>
             length createdDirs \<le> length (categories pl))) \<and>
   (\<forall>e file rest fsa opsa.
      rename fsa (p_path file)
        (resolveConflict fsa (targetPathOf folder file) (targetPathOf folder file) 1) = Inl e
      \<longrightarrow> processFiles folder (file # rest) (fsa, opsa) = processFiles folder rest (fsa, opsa)) \<and>
   (\<forall>e d rest i fsa opsa.
      copyFile fsa d (backupPathOf env d i) = Inl e
      \<longrightarrow> processDuplicates env (d # rest) i (fsa, opsa)
            = processDuplicates env rest (i + 1) (fsa, opsa)) \<and>
   (\<forall>e d rest i fsa fsb opsa.
      copyFile fsa d (backupPathOf env d i) = Inr fsb \<and> unlink fsb d = Inl e
      \<longrightarrow> processDuplicates env (d # rest) i (fsa, opsa)
            = processDuplicates env rest (i + 1) (fsb, opsa))"
proof (intro conjI allI impI)
  fix e fs' stack'
  assume "executeOrganize env pl (fs, undoStack) = (ExecFailure e, fs', stack')"
  thus "stack' = undoStack"
    by (auto simp: executeOrganize_def Let_def split: sum.splits prod.splits)
next
  fix e assume "mkdirRecursive fs (backupDirOf env) = Inl e"
  thus "executeOrganize env pl (fs, undoStack) = (ExecFailure e, fs, undoStack)"
    by (simp add: executeOrganize_def Let_def)
next
  fix fs0 fs1 ops1 createdDirs
  assume a: "mkdirRecursive fs (backupDirOf env) = Inr fs0 \<and>
      createCategoryDirs (folderPath pl) (categories pl) fs0 [] [] = Inr (fs1, ops1, createdDirs)"
  obtain fs3 ops where r: "processDuplicates env (duplicatesToDelete pl) 0
               (processFiles (folderPath pl) (p_files pl) (fs1, ops1)) = (fs3, ops)"
    by (cases "processDuplicates env (duplicatesToDelete pl) 0
               (processFiles (folderPath pl) (p_files pl) (fs1, ops1))")
  from a have m: "mkdirRecursive fs (backupDirOf env) = Inr fs0"
    and c: "createCategoryDirs (folderPath pl) (categories pl) fs0 [] [] = Inr (fs1, ops1, createdDirs)"
    by simp_all
  from executeOrganize_success[OF m c r, of undoStack] executeOrganize_bounds[OF c r] r
  show "\<exists>fs3 ops.
             processDuplicates env (duplicatesToDelete pl) 0
               (processFiles (folderPath pl) (p_files pl) (fs1, ops1)) = (fs3, ops) \<and>
             executeOrganize env pl (fs, undoStack) =
               (ExecSuccess (countType Move ops) (countType Rename ops) (countType Delete ops)
                  (length createdDirs),
                fs3,
                undoStack @ [\<lparr> timestamp = dateNow env (length (duplicatesToDelete pl) + 1),
                               operations = ops \<rparr>]) \<and>
             countType Move ops + countType Rename ops \<le> length (p_files pl) \<and>
             countType Delete ops \<le> length (duplicatesToDelete pl) \<and>
             length createdDirs \<le> length (categories pl)"
    by blast
next
  fix e fl rest fsa opsa
  assume "rename fsa (p_path fl)
        (resolveConflict fsa (targetPathOf folder fl) (targetPathOf folder fl) 1) = Inl e"
  hence "processFile folder fl (fsa, opsa) = (fsa, opsa)"
    by (simp add: processFile_def Let_def)
  thus "processFiles folder (fl # rest) (fsa, opsa) = processFiles folder rest (fsa, opsa)"
    by (simp add: processFiles_def)
next
  fix e d rest i fsa opsa
  assume "copyFile fsa d (backupPathOf env d i) = Inl e"
  thus "processDuplicates env (d # rest) i (fsa, opsa)
            = processDuplicates env rest (i + 1) (fsa, opsa)"
    by (simp add: processDuplicate_def)
next
  fix e d rest i fsa fsb opsa
  assume "copyFile fsa d (backupPathOf env d i) = Inr fsb \<and> unlink fsb d = Inl e"
  thus "processDuplicates env (d # rest) i (fsa, opsa)
            = processDuplicates env rest (i + 1) (fsb, opsa)"
    by (simp add: processDuplicate_def)
qed

end
